(* ===== verification/Pigsy_Prelude.thy ===== *)
theory Pigsy_Prelude
  imports Main "HOL-Library.Word"
begin

unbundle bit_operations_syntax

section \<open>Shared types, Go built-ins and list lemmas\<close>

text \<open>
  What every component of the model shares: the names of Go's sized integers, Go's
  \<open>copy\<close> on slices, the little-endian accessors of \<open>encoding/binary\<close> (with the panic
  on a short slice as \<open>None\<close>), error values with \<open>errors.Is\<close>, and the lemmas on
  lists and words that the components use.

  Conventions: a Go \<open>byte\<close> is an \<open>8 word\<close>; a slice or an array \<open>[n]byte\<close> is a list of
  bytes, and an array's length is a hypothesis where it matters; a Go \<open>string\<close> is a
  HOL \<open>string\<close>, one character per byte; a run-time panic is \<open>None\<close>; an error return is
  the left of a sum.
\<close>

type_synonym byte = "8 word"
type_synonym u16 = "16 word"
type_synonym u32 = "32 word"

named_theorems go_const \<open>the protocol's constants, to be unfolded\<close>
named_theorems go_len \<open>lengths of the arrays the operations return\<close>

subsection \<open>Error values\<close>

text \<open>
  The sentinel errors of \<open>errors.go\<close>; an error made by \<open>errors.New\<close> or by
  \<open>fmt.Errorf\<close> without \<open>%w\<close> is \<open>Errorf\<close> with its format string (the printed
  arguments are not modelled); \<open>fmt.Errorf\<close> with \<open>%w\<close> verbs is \<open>Wrapf\<close> with the
  wrapped errors in order. \<open>TransportErr\<close> is an error of the platform below, which
  the code only passes on.
\<close>

datatype go_error =
    ErrNotLoggedIn
  | ErrLoginFailed
  | ErrTagMismatch
  | ErrShortPacket
  | ErrUnexpectedOpcode
  | TransportErr nat
  | Errorf string
  | Wrapf string "go_error list"

fun errors_is :: "go_error \<Rightarrow> go_error \<Rightarrow> bool" where
  "errors_is (Wrapf m es) t = (Wrapf m es = t \<or> (\<exists>e \<in> set es. errors_is e t))"
| "errors_is e t = (e = t)"

subsection \<open>Slices\<close>

text \<open>Go's \<open>copy(dst, src)\<close>: the first \<open>min (len dst) (len src)\<close> bytes are replaced.\<close>

definition go_copy :: "'a list \<Rightarrow> 'a list \<Rightarrow> 'a list" where
  "go_copy dst src = take (length dst) src @ drop (length src) dst"

text \<open>\<open>copy(dst[off:], src)\<close>, for \<open>off\<close> within the slice.\<close>

definition go_copy_at :: "nat \<Rightarrow> 'a list \<Rightarrow> 'a list \<Rightarrow> 'a list" where
  "go_copy_at off dst src = take off dst @ go_copy (drop off dst) src"

lemma length_go_copy [simp, go_len]: "length (go_copy dst src) = length dst"
  by (simp add: go_copy_def min_def)

lemma length_go_copy_at [simp, go_len]: "length (go_copy_at off dst src) = length dst"
  by (simp add: go_copy_at_def)

lemma go_copy_full: "length src = length dst \<Longrightarrow> go_copy dst src = src"
  by (simp add: go_copy_def)

lemma go_copy_short: "length src \<le> length dst \<Longrightarrow> go_copy dst src = src @ drop (length src) dst"
  by (simp add: go_copy_def)

lemma nth_go_copy:
  "i < length dst \<Longrightarrow> go_copy dst src ! i = (if i < length src then src ! i else dst ! i)"
  by (simp add: go_copy_def nth_append min_def)

subsection \<open>Bytes\<close>

definition bytes_of :: "string \<Rightarrow> byte list" where
  "bytes_of s = map of_char s"

lemma length_bytes_of [simp, go_len]: "length (bytes_of s) = length s"
  by (simp add: bytes_of_def)

definition lo8 :: "u16 \<Rightarrow> byte" where
  "lo8 v = ucast v"

definition hi8 :: "u16 \<Rightarrow> byte" where
  "hi8 v = ucast (drop_bit 8 v)"

definition le16_of :: "byte \<Rightarrow> byte \<Rightarrow> u16" where
  "le16_of b0 b1 = ucast b0 OR push_bit 8 (ucast b1)"

definition le32_of :: "byte \<Rightarrow> byte \<Rightarrow> byte \<Rightarrow> byte \<Rightarrow> u32" where
  "le32_of b0 b1 b2 b3 =
     ucast b0 OR push_bit 8 (ucast b1) OR push_bit 16 (ucast b2) OR push_bit 24 (ucast b3)"

lemma le16_lo8_hi8 [simp]: "le16_of (lo8 v) (hi8 v) = v"
  by (rule bit_word_eqI) (auto simp: le16_of_def lo8_def hi8_def bit_simps)

lemma lo8_le16 [simp]: "lo8 (le16_of a b) = a"
  by (rule bit_word_eqI) (auto simp: le16_of_def lo8_def bit_simps)

lemma hi8_le16 [simp]: "hi8 (le16_of a b) = b"
  by (rule bit_word_eqI) (auto simp: le16_of_def hi8_def bit_simps dest: bit_imp_le_length)

lemma le32_bytes [simp]:
  "le32_of (ucast v) (ucast (drop_bit 8 v)) (ucast (drop_bit 16 v)) (ucast (drop_bit 24 v)) = v"
  for v :: u32
proof (rule bit_word_eqI)
  fix n
  assume "n < LENGTH(32)"
  then consider "n < 8" | "8 \<le> n" "n < 16" | "16 \<le> n" "n < 24" | "24 \<le> n" "n < 32"
    by fastforce
  then show "bit (le32_of (ucast v) (ucast (drop_bit 8 v)) (ucast (drop_bit 16 v))
      (ucast (drop_bit 24 v))) n = bit v n"
    by cases (auto simp: le32_of_def bit_simps)
qed

text \<open>\<open>binary.LittleEndian\<close>: a read or a write past the slice panics.\<close>

definition Uint16_LE :: "byte list \<Rightarrow> u16 option" where
  "Uint16_LE b = (if length b < 2 then None else Some (le16_of (b ! 0) (b ! 1)))"

definition Uint32_LE :: "byte list \<Rightarrow> u32 option" where
  "Uint32_LE b =
     (if length b < 4 then None else Some (le32_of (b ! 0) (b ! 1) (b ! 2) (b ! 3)))"

definition PutUint16_LE :: "byte list \<Rightarrow> u16 \<Rightarrow> byte list option" where
  "PutUint16_LE dst v =
     (if length dst < 2 then None else Some (dst[0 := lo8 v, 1 := hi8 v]))"

definition PutUint32_LE :: "byte list \<Rightarrow> u32 \<Rightarrow> byte list option" where
  "PutUint32_LE dst v =
     (if length dst < 4 then None
      else Some (dst[0 := ucast v, 1 := ucast (drop_bit 8 v),
                     2 := ucast (drop_bit 16 v), 3 := ucast (drop_bit 24 v)]))"

subsection \<open>Lists\<close>

lemma map_upt_nth: "n = length xs \<Longrightarrow> map (\<lambda>i. xs ! i) [0..<n] = xs"
  by (simp add: map_nth)

lemma nth_list_update_0 [simp]: "numeral k \<le> length xs \<Longrightarrow> xs[0 := v] ! 0 = v"
  by (cases xs) auto

lemma take_Suc_nth: "i < length xs \<Longrightarrow> take (Suc i) xs = take i xs @ [xs ! i]"
  by (simp add: take_Suc_conv_app_nth)

lemma xor_self_inverse [simp]: "(a XOR b) XOR b = a" for a b :: "'a::len word"
  by (simp add: xor.assoc)

lemma xor_cancel_right [simp]: "(a XOR c = b XOR c) = (a = b)" for a b c :: "'a::len word"
  by (metis xor_self_inverse)

lemma xor_cancel_left [simp]: "(c XOR a = c XOR b) = (a = b)" for a b c :: "'a::len word"
  by (simp add: xor.commute [of c])

subsection \<open>Sixteen-byte blocks\<close>

text \<open>Rounding an index up to the next multiple of 16.\<close>

lemma ceil16_aligned: "i mod 16 = 0 \<Longrightarrow> (i + 15) div 16 = i div 16" for i :: nat
proof -
  assume "i mod 16 = 0"
  then obtain q where "i = 16 * q" by (metis mod_0_imp_dvd dvdE)
  then show ?thesis by simp
qed

lemma ceil16_inside: "i mod 16 \<noteq> 0 \<Longrightarrow> (i + 15) div 16 = Suc (i div 16)" for i :: nat
proof -
  assume r: "i mod 16 \<noteq> 0"
  define q r where "q = i div 16" and "r = i mod 16 - 1"
  with r have "i + 15 = 16 * Suc q + r" and "r < 16"
    using mult_div_mod_eq [of 16 i] by auto
  then show ?thesis by (simp add: q_def)
qed

lemma ceil16_Suc:
  "(Suc i + 15) div 16 = (if i mod 16 = 0 then Suc ((i + 15) div 16) else (i + 15) div 16)"
  for i :: nat
proof -
  have "(Suc i + 15) div 16 = Suc (i div 16)" by simp
  then show ?thesis
    by (cases "i mod 16 = 0") (simp_all add: ceil16_aligned ceil16_inside del: div_mult_self1)
qed

subsection \<open>The interface of an encoder and its decoder\<close>

text \<open>
  The contract that several pairs of operations of the library share: what the encoder
  writes for a valid value, the decoder reads back. Two values then never share an encoding.
\<close>

locale codec =
  fixes valid :: "'a \<Rightarrow> bool" and enc :: "'a \<Rightarrow> 'b" and dec :: "'b \<Rightarrow> 'a option"
  assumes dec_enc: "valid x \<Longrightarrow> dec (enc x) = Some x"
begin

lemma enc_inj: "valid x \<Longrightarrow> valid y \<Longrightarrow> enc x = enc y \<Longrightarrow> x = y"
  by (metis dec_enc option.inject)

lemma enc_eq_iff: "valid x \<Longrightarrow> valid y \<Longrightarrow> (enc x = enc y) = (x = y)"
  using enc_inj by blast

lemma dec_canonical: "dec s = Some x \<Longrightarrow> valid x \<Longrightarrow> dec (enc x) = dec s"
  by (simp add: dec_enc)

end

subsection \<open>Step relations\<close>

text \<open>
  What the step relations of the concurrent components share: the reachable states, and the
  contract of an invariant. Whoever shows that a predicate holds at first and that every step
  keeps it may use it in every reachable state.
\<close>

inductive reachable :: "('s \<Rightarrow> bool) \<Rightarrow> ('s \<Rightarrow> 'a \<Rightarrow> 's \<Rightarrow> bool) \<Rightarrow> 's \<Rightarrow> bool"
  for start step where
  reach_start: "start s \<Longrightarrow> reachable start step s"
| reach_step: "reachable start step s \<Longrightarrow> step s a s' \<Longrightarrow> reachable start step s'"

inductive steps :: "('s \<Rightarrow> 'a \<Rightarrow> 's \<Rightarrow> bool) \<Rightarrow> 's \<Rightarrow> 'a list \<Rightarrow> 's \<Rightarrow> bool" for step where
  steps_Nil: "steps step s [] s"
| steps_Cons: "step s a s' \<Longrightarrow> steps step s' as s'' \<Longrightarrow> steps step s (a # as) s''"

inductive_cases steps_NilE: "steps step s [] s'"
inductive_cases steps_ConsE: "steps step s (a # as) s'"

lemma steps_none: "\<exists>as. steps step s as s"
  by (blast intro: steps_Nil)

lemma steps_one: "step s a s' \<Longrightarrow> \<exists>as. steps step s as s'"
  by (blast intro: steps_Cons steps_Nil)

lemma steps_snoc: "steps step s as s' \<Longrightarrow> step s' a s'' \<Longrightarrow> steps step s (as @ [a]) s''"
  by (induction rule: steps.induct) (auto intro: steps.intros)

lemma steps_trans: "steps step s as s' \<Longrightarrow> steps step s' bs s'' \<Longrightarrow> steps step s (as @ bs) s''"
  by (induction rule: steps.induct) (auto intro: steps.intros)

lemma reachable_steps: "steps step s as s' \<Longrightarrow> reachable start step s \<Longrightarrow> reachable start step s'"
  by (induction rule: steps.induct) (auto intro: reach_step)

locale step_invariant =
  fixes start :: "'s \<Rightarrow> bool" and step :: "'s \<Rightarrow> 'a \<Rightarrow> 's \<Rightarrow> bool" and inv :: "'s \<Rightarrow> bool"
  assumes inv_start: "start s \<Longrightarrow> inv s"
    and inv_step: "inv s \<Longrightarrow> step s a s' \<Longrightarrow> inv s'"
begin

lemma reachable_inv: "reachable start step s \<Longrightarrow> inv s"
  by (induction rule: reachable.induct) (auto intro: inv_start inv_step)

lemma steps_inv: "steps step s as s' \<Longrightarrow> inv s \<Longrightarrow> inv s'"
  by (induction rule: steps.induct) (auto intro: inv_step)

end

text \<open>A rank that every step lowers bounds the length of every run.\<close>

locale step_rank =
  fixes step :: "'s \<Rightarrow> 'a \<Rightarrow> 's \<Rightarrow> bool" and rank :: "'s \<Rightarrow> nat"
  assumes rank_step: "step s a s' \<Longrightarrow> rank s' < rank s"
begin

lemma steps_rank: "steps step s as s' \<Longrightarrow> rank s' + length as \<le> rank s"
  by (induction rule: steps.induct) (auto dest: rank_step)

lemma steps_bounded: "steps step s as s' \<Longrightarrow> length as \<le> rank s"
  using steps_rank by fastforce

end

text \<open>
  Termination: a state that is live stays live and can always take a step before it is final, so
  that every run which cannot go on has reached a final state, and one such run exists.
\<close>

locale step_terminates = step_rank step rank
  for step :: "'s \<Rightarrow> 'a \<Rightarrow> 's \<Rightarrow> bool" and rank :: "'s \<Rightarrow> nat" +
  fixes live final :: "'s \<Rightarrow> bool"
  assumes live_step: "live s \<Longrightarrow> step s a s' \<Longrightarrow> live s'"
    and progress: "live s \<Longrightarrow> \<not> final s \<Longrightarrow> \<exists>a s'. step s a s'"
begin

lemma steps_live: "steps step s as s' \<Longrightarrow> live s \<Longrightarrow> live s'"
  by (induction rule: steps.induct) (auto intro: live_step)

lemma stuck_final: "steps step s as s' \<Longrightarrow> live s \<Longrightarrow> \<nexists>a s''. step s' a s'' \<Longrightarrow> final s'"
  using steps_live progress by blast

lemma reaches_final: "live s \<Longrightarrow> \<exists>as s'. steps step s as s' \<and> final s'"
proof (induction "rank s" arbitrary: s rule: less_induct)
  case less
  show ?case
  proof (cases "final s")
    case True
    then show ?thesis using steps_Nil [of step s] by blast
  next
    case False
    then obtain a s1 where s1: "step s a s1" using progress less.prems by blast
    from less.hyps [OF rank_step [OF s1] live_step [OF less.prems s1]] obtain as s' where
      "steps step s1 as s'" "final s'" by blast
    with steps_Cons [where step = step, OF s1] show ?thesis by blast
  qed
qed

end

text \<open>
  A simulation: every step from a reachable state is matched by steps of another relation, so a
  reachable state has a reachable partner there, and what holds of the partner carries over.
\<close>

locale step_simulation =
  fixes start :: "'s \<Rightarrow> bool" and step :: "'s \<Rightarrow> 'a \<Rightarrow> 's \<Rightarrow> bool"
    and start' :: "'t \<Rightarrow> bool" and step' :: "'t \<Rightarrow> 'b \<Rightarrow> 't \<Rightarrow> bool" and partner :: "'s \<Rightarrow> 't \<Rightarrow> bool"
  assumes sim_start: "start s \<Longrightarrow> \<exists>t. start' t \<and> partner s t"
    and sim_step: "reachable start step s \<Longrightarrow> partner s t \<Longrightarrow> step s a s' \<Longrightarrow>
      \<exists>bs t'. steps step' t bs t' \<and> partner s' t'"
begin

lemma simulated: "reachable start step s \<Longrightarrow> \<exists>t. reachable start' step' t \<and> partner s t"
proof (induction rule: reachable.induct)
  case (reach_start s)
  then show ?case using sim_start by (blast intro: reachable.reach_start)
next
  case (reach_step s a s')
  from reach_step.IH obtain t where t: "reachable start' step' t" "partner s t" by blast
  from sim_step [OF reach_step.hyps(1) t(2) reach_step.hyps(2)] t(1) show ?case
    by (blast intro: reachable_steps)
qed

end

subsection \<open>Hexadecimal digits\<close>

text \<open>The digits of \<open>%02X\<close>, \<open>hex.DecodeString\<close> and \<open>strings.FieldsFunc\<close>.\<close>

definition upper_digit :: "nat \<Rightarrow> char" where
  "upper_digit n = ''0123456789ABCDEF'' ! n"

definition lower_digit :: "nat \<Rightarrow> char" where
  "lower_digit n = ''0123456789abcdef'' ! n"

definition hex_value :: "char \<Rightarrow> nat option" where
  "hex_value c =
     (let n = (of_char c :: nat)
      in if 48 \<le> n \<and> n \<le> 57 then Some (n - 48)
         else if 97 \<le> n \<and> n \<le> 102 then Some (n - 97 + 10)
         else if 65 \<le> n \<and> n \<le> 70 then Some (n - 65 + 10)
         else None)"

fun hex_DecodeString :: "string \<Rightarrow> byte list option" where
  "hex_DecodeString [] = Some []"
| "hex_DecodeString [c] = None"
| "hex_DecodeString (c # c' # cs) =
     (case (hex_value c, hex_value c', hex_DecodeString cs) of
        (Some hi, Some lo, Some bs) \<Rightarrow> Some (word_of_nat (16 * hi + lo) # bs)
      | _ \<Rightarrow> None)"

fun fields_loop :: "(char \<Rightarrow> bool) \<Rightarrow> string \<Rightarrow> string \<Rightarrow> string list" where
  "fields_loop p cur [] = (if cur = [] then [] else [cur])"
| "fields_loop p cur (c # cs) =
     (if p c then (if cur = [] then fields_loop p [] cs else cur # fields_loop p [] cs)
      else fields_loop p (cur @ [c]) cs)"

definition FieldsFunc :: "(char \<Rightarrow> bool) \<Rightarrow> string \<Rightarrow> string list" where
  "FieldsFunc p s = fields_loop p [] s"

definition fmt_02X :: "byte \<Rightarrow> string" where
  "fmt_02X b = [upper_digit (unat b div 16), upper_digit (unat b mod 16)]"

lemma digits_table:
  "\<forall>n \<in> {..<16}. hex_value (upper_digit n) = Some n \<and> hex_value (lower_digit n) = Some n \<and>
     upper_digit n \<notin> {CHR '':'', CHR ''-'', CHR ''_''} \<and> lower_digit n \<noteq> CHR ''-''"
  by (simp add: lessThan_nat_numeral lessThan_Suc hex_value_def upper_digit_def lower_digit_def)

lemma hex_value_upper: "n < 16 \<Longrightarrow> hex_value (upper_digit n) = Some n"
  and hex_value_lower: "n < 16 \<Longrightarrow> hex_value (lower_digit n) = Some n"
  and upper_digit_no_separator: "n < 16 \<Longrightarrow> upper_digit n \<notin> {CHR '':'', CHR ''-'', CHR ''_''}"
  and lower_digit_no_separator: "n < 16 \<Longrightarrow> lower_digit n \<noteq> CHR ''-''"
  using bspec [OF digits_table, of n] unfolding lessThan_iff by blast+

lemma unat_byte_div: "unat b div 16 < 16" for b :: byte
  using unsigned_less [where 'a = nat, of b] by (simp add: less_mult_imp_div_less)

lemma hex_DecodeString_02X: "hex_DecodeString (fmt_02X b) = Some [b]"
  by (simp add: fmt_02X_def hex_value_upper unat_byte_div)

lemma fields_loop_word:
  "list_all (\<lambda>c. \<not> p c) w \<Longrightarrow> p sep \<Longrightarrow> cur @ w \<noteq> [] \<Longrightarrow>
   fields_loop p cur (w @ sep # rest) = (cur @ w) # fields_loop p [] rest"
  by (induction w arbitrary: cur) auto

lemma fields_loop_last:
  "list_all (\<lambda>c. \<not> p c) w \<Longrightarrow> cur @ w \<noteq> [] \<Longrightarrow> fields_loop p cur w = [cur @ w]"
  by (induction w arbitrary: cur) auto

end
