(* ===== verification/Block_Cipher.thy ===== *)
theory Block_Cipher
  imports Pigsy_Prelude
begin

section \<open>AES-128, the block cipher of Go's standard library\<close>

text \<open>
  The code calls \<open>crypto/aes\<close>: \<open>aes.NewCipher\<close> on a 16-byte key and \<open>Encrypt\<close> on one
  block, that is AES-128 as FIPS 197 defines it. This theory models that use (the state as
  16 bytes in column order), and states the interface the protocol code relies on as the
  locale \<open>keyed_permutation\<close>: on 16-byte keys and blocks the cipher returns 16 bytes and,
  for a fixed key, never maps two blocks to the same one. AES is then an interpretation.
\<close>

subsection \<open>The interface: a keyed permutation of 16-byte blocks\<close>

lemma finite_blocks: "finite {b :: byte list. length b = 16}"
proof -
  have "{b :: byte list. length b = 16} = {b. set b \<subseteq> UNIV \<and> length b = 16}" by simp
  then show ?thesis by (simp only: finite_lists_length_eq [OF finite])
qed

locale keyed_permutation =
  fixes E :: "byte list \<Rightarrow> byte list \<Rightarrow> byte list"
  assumes E_length: "length k = 16 \<Longrightarrow> length b = 16 \<Longrightarrow> length (E k b) = 16"
    and E_inj: "length k = 16 \<Longrightarrow> length a = 16 \<Longrightarrow> length b = 16 \<Longrightarrow> E k a = E k b \<Longrightarrow> a = b"
begin

lemma E_eq_iff:
  "length k = 16 \<Longrightarrow> length a = 16 \<Longrightarrow> length b = 16 \<Longrightarrow> (E k a = E k b) = (a = b)"
  using E_inj by blast

lemma E_surj:
  assumes k: "length k = 16" and c: "length c = 16"
  shows "\<exists>b. length b = 16 \<and> E k b = c"
proof -
  let ?B = "{b :: byte list. length b = 16}"
  have "inj_on (E k) ?B" using E_inj [OF k] by (auto intro: inj_onI)
  moreover have "E k ` ?B \<subseteq> ?B" using E_length [OF k] by auto
  ultimately have "E k ` ?B = ?B" using endo_inj_surj [OF finite_blocks] by blast
  with c have "c \<in> E k ` ?B" by simp
  then show ?thesis by auto
qed

end

subsection \<open>The steps of AES\<close>

text \<open>The substitution table, one row of sixteen per high nibble, as the standard prints it.\<close>

definition sbox_row :: "nat \<Rightarrow> byte list" where
  "sbox_row i =
    (if i = 0 then [0x63, 0x7c, 0x77, 0x7b, 0xf2, 0x6b, 0x6f, 0xc5, 0x30, 0x01, 0x67, 0x2b, 0xfe, 0xd7, 0xab, 0x76]
     else if i = 1 then [0xca, 0x82, 0xc9, 0x7d, 0xfa, 0x59, 0x47, 0xf0, 0xad, 0xd4, 0xa2, 0xaf, 0x9c, 0xa4, 0x72, 0xc0]
     else if i = 2 then [0xb7, 0xfd, 0x93, 0x26, 0x36, 0x3f, 0xf7, 0xcc, 0x34, 0xa5, 0xe5, 0xf1, 0x71, 0xd8, 0x31, 0x15]
     else if i = 3 then [0x04, 0xc7, 0x23, 0xc3, 0x18, 0x96, 0x05, 0x9a, 0x07, 0x12, 0x80, 0xe2, 0xeb, 0x27, 0xb2, 0x75]
     else if i = 4 then [0x09, 0x83, 0x2c, 0x1a, 0x1b, 0x6e, 0x5a, 0xa0, 0x52, 0x3b, 0xd6, 0xb3, 0x29, 0xe3, 0x2f, 0x84]
     else if i = 5 then [0x53, 0xd1, 0x00, 0xed, 0x20, 0xfc, 0xb1, 0x5b, 0x6a, 0xcb, 0xbe, 0x39, 0x4a, 0x4c, 0x58, 0xcf]
     else if i = 6 then [0xd0, 0xef, 0xaa, 0xfb, 0x43, 0x4d, 0x33, 0x85, 0x45, 0xf9, 0x02, 0x7f, 0x50, 0x3c, 0x9f, 0xa8]
     else if i = 7 then [0x51, 0xa3, 0x40, 0x8f, 0x92, 0x9d, 0x38, 0xf5, 0xbc, 0xb6, 0xda, 0x21, 0x10, 0xff, 0xf3, 0xd2]
     else if i = 8 then [0xcd, 0x0c, 0x13, 0xec, 0x5f, 0x97, 0x44, 0x17, 0xc4, 0xa7, 0x7e, 0x3d, 0x64, 0x5d, 0x19, 0x73]
     else if i = 9 then [0x60, 0x81, 0x4f, 0xdc, 0x22, 0x2a, 0x90, 0x88, 0x46, 0xee, 0xb8, 0x14, 0xde, 0x5e, 0x0b, 0xdb]
     else if i = 10 then [0xe0, 0x32, 0x3a, 0x0a, 0x49, 0x06, 0x24, 0x5c, 0xc2, 0xd3, 0xac, 0x62, 0x91, 0x95, 0xe4, 0x79]
     else if i = 11 then [0xe7, 0xc8, 0x37, 0x6d, 0x8d, 0xd5, 0x4e, 0xa9, 0x6c, 0x56, 0xf4, 0xea, 0x65, 0x7a, 0xae, 0x08]
     else if i = 12 then [0xba, 0x78, 0x25, 0x2e, 0x1c, 0xa6, 0xb4, 0xc6, 0xe8, 0xdd, 0x74, 0x1f, 0x4b, 0xbd, 0x8b, 0x8a]
     else if i = 13 then [0x70, 0x3e, 0xb5, 0x66, 0x48, 0x03, 0xf6, 0x0e, 0x61, 0x35, 0x57, 0xb9, 0x86, 0xc1, 0x1d, 0x9e]
     else if i = 14 then [0xe1, 0xf8, 0x98, 0x11, 0x69, 0xd9, 0x8e, 0x94, 0x9b, 0x1e, 0x87, 0xe9, 0xce, 0x55, 0x28, 0xdf]
     else [0x8c, 0xa1, 0x89, 0x0d, 0xbf, 0xe6, 0x42, 0x68, 0x41, 0x99, 0x2d, 0x0f, 0xb0, 0x54, 0xbb, 0x16])"

definition sbox :: "byte \<Rightarrow> byte" where
  "sbox b = sbox_row (unat (drop_bit 4 b)) ! unat (b AND 0x0f)"

definition xtime :: "byte \<Rightarrow> byte" where
  "xtime b = push_bit 1 b XOR (if bit b 7 then 0x1b else 0)"

definition SubBytes :: "byte list \<Rightarrow> byte list" where
  "SubBytes s = map sbox s"

text \<open>Byte \<open>r + 4 c\<close> of the state is row \<open>r\<close>, column \<open>c\<close>; row \<open>r\<close> rotates left by \<open>r\<close>.\<close>

definition ShiftRows :: "byte list \<Rightarrow> byte list" where
  "ShiftRows s = map (\<lambda>i. s ! ((i + 4 * (i mod 4)) mod 16)) [0..<16]"

definition mix_column :: "byte \<Rightarrow> byte \<Rightarrow> byte \<Rightarrow> byte \<Rightarrow> byte list" where
  "mix_column a b c d =
     [xtime a XOR (xtime b XOR b) XOR c XOR d,
      a XOR xtime b XOR (xtime c XOR c) XOR d,
      a XOR b XOR xtime c XOR (xtime d XOR d),
      (xtime a XOR a) XOR b XOR c XOR xtime d]"

fun MixColumns :: "byte list \<Rightarrow> byte list" where
  "MixColumns (a # b # c # d # s) = mix_column a b c d @ MixColumns s"
| "MixColumns s = s"

definition AddRoundKey :: "byte list \<Rightarrow> byte list \<Rightarrow> byte list" where
  "AddRoundKey s k = map2 (XOR) s k"

text \<open>One step of the key expansion: round key \<open>i\<close> from round key \<open>i - 1\<close>.\<close>

definition xor_word :: "byte list \<Rightarrow> byte list \<Rightarrow> byte list" where
  "xor_word a b = map2 (XOR) a b"

definition next_round_key :: "byte \<Rightarrow> byte list \<Rightarrow> byte list" where
  "next_round_key rc k =
     (let t = [sbox (k ! 13) XOR rc, sbox (k ! 14), sbox (k ! 15), sbox (k ! 12)];
          w0 = xor_word (take 4 k) t;
          w1 = xor_word (take 4 (drop 4 k)) w0;
          w2 = xor_word (take 4 (drop 8 k)) w1;
          w3 = xor_word (take 4 (drop 12 k)) w2
      in w0 @ w1 @ w2 @ w3)"

fun aes_rounds :: "byte list \<Rightarrow> byte list \<Rightarrow> byte list \<Rightarrow> byte list" where
  "aes_rounds s k [] = s"
| "aes_rounds s k [rc] = AddRoundKey (ShiftRows (SubBytes s)) (next_round_key rc k)"
| "aes_rounds s k (rc # rcs) =
     (let k' = next_round_key rc k
      in aes_rounds (AddRoundKey (MixColumns (ShiftRows (SubBytes s))) k') k' rcs)"

definition round_constants :: "byte list" where
  "round_constants = [0x01, 0x02, 0x04, 0x08, 0x10, 0x20, 0x40, 0x80, 0x1b, 0x36]"

definition aes128_encrypt :: "byte list \<Rightarrow> byte list \<Rightarrow> byte list" where
  "aes128_encrypt key block = aes_rounds (AddRoundKey block key) key round_constants"

subsection \<open>Each step is injective\<close>

lemma length_sbox_row: "length (sbox_row i) = 16"
  by (simp add: sbox_row_def)

lemma upt_16: "[0..<16] = [0, 1, 2, 3, 4, 5, 6, 7, 8, 9, 10, 11, 12, 13, 14, 15]"
  by (simp add: upt_rec)

lemma distinct_sbox_rows: "distinct (concat (map sbox_row [0..<16]))"
proof -
  have "distinct (map uint (concat (map sbox_row [0..<16])))"
    by (simp add: upt_16 sbox_row_def)
  then show ?thesis by (simp only: distinct_map)
qed

text \<open>Two equal entries are in the same row, at the same place.\<close>

lemma sbox_row_inj:
  assumes "i < 16" "k < 16" "j < 16" "l < 16" "sbox_row i ! j = sbox_row k ! l"
  shows "i = k \<and> j = l"
proof -
  let ?rows = "map sbox_row [0..<16]"
  have ne: "[] \<notin> set ?rows" using length_sbox_row by (metis (no_types, lifting) ex_map_conv
      list.size(3) zero_neq_numeral)
  then have "removeAll [] ?rows = ?rows" by (simp add: removeAll_id)
  then have d: "distinct ?rows" "\<And>r. r \<in> set ?rows \<Longrightarrow> distinct r"
      "\<And>r s. r \<in> set ?rows \<Longrightarrow> s \<in> set ?rows \<Longrightarrow> r \<noteq> s \<Longrightarrow> set r \<inter> set s = {}"
    using distinct_sbox_rows unfolding distinct_concat_iff by auto
  have rows: "sbox_row i \<in> set ?rows" "sbox_row k \<in> set ?rows" using assms by auto
  have "sbox_row i ! j \<in> set (sbox_row i)" using assms(3) by (simp add: length_sbox_row)
  moreover have "sbox_row i ! j \<in> set (sbox_row k)"
    unfolding assms(5) using assms(4) by (simp add: length_sbox_row)
  ultimately have same: "sbox_row i = sbox_row k" using d(3) [OF rows] by blast
  with d(1) assms(1,2) have "i = k" by (simp add: distinct_map inj_on_def)
  moreover have "j = l"
    using d(2) [OF rows(1)] assms same by (simp add: nth_eq_iff_index_eq length_sbox_row)
  ultimately show ?thesis by simp
qed

lemma nibbles: "unat (drop_bit 4 b) < 16" "unat (b AND 0x0f) < 16" for b :: byte
proof -
  show "unat (drop_bit 4 b) < 16"
  proof -
    have "unat b < 256" using unsigned_less [where 'a = nat, of b] by simp
    then have "unat b div 16 < 16" by (simp add: less_mult_imp_div_less)
    moreover have "unat (drop_bit 4 b) = unat b div 16"
      by (simp add: drop_bit_eq_div unat_div)
    ultimately show ?thesis by simp
  qed
  have "b AND 0x0f = take_bit 4 b" by (simp add: take_bit_eq_mask mask_numeral)
  then show "unat (b AND 0x0f) < 16" by (simp add: unsigned_take_bit_eq take_bit_nat_less_exp [of 4, simplified])
qed

lemma nibbles_inj: "drop_bit 4 a = drop_bit 4 b \<Longrightarrow> a AND 0x0f = b AND 0x0f \<Longrightarrow> a = b"
  for a b :: byte
proof -
  assume h: "drop_bit 4 a = drop_bit 4 b" and l: "a AND 0x0f = b AND 0x0f"
  have m: "c AND 0x0f = take_bit 4 c" for c :: byte by (simp add: take_bit_eq_mask mask_numeral)
  have "a = push_bit 4 (drop_bit 4 a) OR take_bit 4 a"
    by (rule bit_word_eqI) (auto simp: bit_simps)
  also have "\<dots> = push_bit 4 (drop_bit 4 b) OR take_bit 4 b" using h l by (simp only: m)
  also have "\<dots> = b" by (rule bit_word_eqI) (auto simp: bit_simps)
  finally show "a = b" .
qed

lemma sbox_inj: "sbox a = sbox b \<Longrightarrow> a = b"
  using sbox_row_inj [OF nibbles(1) [of a] nibbles(1) [of b] nibbles(2) [of a] nibbles(2) [of b]]
  by (auto simp: sbox_def word_unat_eq_iff [symmetric] intro: nibbles_inj)

lemma xtime_xor: "xtime (a XOR b) = xtime a XOR xtime b"
  by (rule bit_word_eqI) (auto simp: xtime_def bit_simps)

text \<open>
  The matrix of \<open>MixColumns\<close> has order four: applied four times to a column it gives the
  column back, by the linearity of \<open>xtime\<close> alone.
\<close>

lemma xor_cancel_ac [simp]: "a XOR (a XOR b) = b" for a b :: byte
  by (metis xor.assoc xor_self_eq xor.left_neutral)

lemmas xor_normal = xtime_xor xor.assoc xor.commute xor.left_commute

fun mix_column_list :: "byte list \<Rightarrow> byte list" where
  "mix_column_list [a, b, c, d] = mix_column a b c d"
| "mix_column_list xs = xs"

lemma mix_column_twice:
  "mix_column_list (mix_column a b c d) =
     [a XOR xtime (xtime (a XOR c)), b XOR xtime (xtime (b XOR d)),
      c XOR xtime (xtime (a XOR c)), d XOR xtime (xtime (b XOR d))]"
  by (simp add: mix_column_def xor_normal)

lemma mix_column_inj:
  assumes "mix_column a b c d = mix_column a' b' c' d'"
  shows "[a, b, c, d] = [a', b', c', d']"
proof -
  from assms have eqs: "a XOR xtime (xtime (a XOR c)) = a' XOR xtime (xtime (a' XOR c'))"
      "c XOR xtime (xtime (a XOR c)) = c' XOR xtime (xtime (a' XOR c'))"
      "b XOR xtime (xtime (b XOR d)) = b' XOR xtime (xtime (b' XOR d'))"
      "d XOR xtime (xtime (b XOR d)) = d' XOR xtime (xtime (b' XOR d'))"
    using mix_column_twice [of a b c d] mix_column_twice [of a' b' c' d'] by simp_all
  have key: "x = x' \<and> y = y'"
    if "x XOR xtime (xtime (x XOR y)) = x' XOR xtime (xtime (x' XOR y'))"
      and "y XOR xtime (xtime (x XOR y)) = y' XOR xtime (xtime (x' XOR y'))"
    for x y x' y' :: byte
  proof -
    have "(x XOR xtime (xtime (x XOR y))) XOR (y XOR xtime (xtime (x XOR y))) =
          (x' XOR xtime (xtime (x' XOR y'))) XOR (y' XOR xtime (xtime (x' XOR y')))"
      using that by simp
    then have "x XOR y = x' XOR y'" by (simp add: ac_simps)
    with that show ?thesis by simp
  qed
  from key [OF eqs(1,2)] key [OF eqs(3,4)] show ?thesis by simp
qed

lemma length_MixColumns [simp]: "length (MixColumns s) = length s"
  by (induction s rule: MixColumns.induct) (simp_all add: mix_column_def)

lemma MixColumns_inj: "length s = length t \<Longrightarrow> MixColumns s = MixColumns t \<Longrightarrow> s = t"
proof (induction s arbitrary: t rule: MixColumns.induct)
  case (1 a b c d s)
  then obtain a' b' c' d' t' where t: "t = a' # b' # c' # d' # t'"
    by (auto simp: Suc_length_conv length_Suc_conv)
  with "1.prems" have "mix_column a b c d = mix_column a' b' c' d'"
      and "MixColumns s = MixColumns t'" and "length s = length t'"
    by (auto simp: mix_column_def)
  then show ?case using "1.IH" [of t'] mix_column_inj t by fastforce
qed (auto simp: Suc_length_conv length_Suc_conv)

lemma length_ShiftRows [simp]: "length (ShiftRows s) = 16"
  by (simp add: ShiftRows_def)

lemma ShiftRows_index:
  "\<forall>i \<in> {..<16}. ((i + 12 * (i mod 4)) mod 16 + 4 * ((i + 12 * (i mod 4)) mod 16 mod 4)) mod
     (16 :: nat) = i"
  by (simp add: lessThan_nat_numeral lessThan_Suc)

lemma ShiftRows_inj:
  assumes len: "length s = 16" "length t = 16" and eq: "ShiftRows s = ShiftRows t"
  shows "s = t"
proof (rule nth_equalityI)
  show "length s = length t" using len by simp
  fix i assume "i < length s"
  then have i: "i < 16" using len by simp
  define j where "j = (i + 12 * (i mod 4)) mod 16"
  have j: "j < 16" "(j + 4 * (j mod 4)) mod 16 = i" unfolding j_def using ShiftRows_index i by (simp_all only: Ball_def lessThan_iff)
  from eq have "ShiftRows s ! j = ShiftRows t ! j" by simp
  with j show "s ! i = t ! i" by (simp add: ShiftRows_def)
qed

lemma length_SubBytes [simp]: "length (SubBytes s) = length s"
  by (simp add: SubBytes_def)

lemma SubBytes_inj: "SubBytes s = SubBytes t \<Longrightarrow> s = t"
  unfolding SubBytes_def by (rule map_injective) (auto intro: injI sbox_inj)

lemma length_AddRoundKey [simp]: "length (AddRoundKey s k) = min (length s) (length k)"
  by (simp add: AddRoundKey_def)

lemma AddRoundKey_inj:
  assumes len: "length s = length k" "length t = length k"
    and eq: "AddRoundKey s k = AddRoundKey t k"
  shows "s = t"
proof (rule nth_equalityI)
  show "length s = length t" using len by simp
  fix i assume "i < length s"
  then have "AddRoundKey s k ! i = s ! i XOR k ! i" "AddRoundKey t k ! i = t ! i XOR k ! i"
    using len by (simp_all add: AddRoundKey_def)
  with eq show "s ! i = t ! i" by simp
qed

lemma length_next_round_key [simp]: "length k = 16 \<Longrightarrow> length (next_round_key rc k) = 16"
  by (simp add: next_round_key_def xor_word_def Let_def)

subsection \<open>AES is a keyed permutation\<close>

lemma length_aes_rounds:
  "length s = 16 \<Longrightarrow> length k = 16 \<Longrightarrow> length (aes_rounds s k rcs) = 16"
  by (induction s k rcs rule: aes_rounds.induct) (simp_all add: Let_def)

lemma aes_rounds_inj:
  "length s = 16 \<Longrightarrow> length t = 16 \<Longrightarrow> length k = 16 \<Longrightarrow>
   aes_rounds s k rcs = aes_rounds t k rcs \<Longrightarrow> s = t"
proof (induction s k rcs arbitrary: t rule: aes_rounds.induct)
  case (1 s k)
  then show ?case by simp
next
  case (2 s k rc)
  then have "ShiftRows (SubBytes s) = ShiftRows (SubBytes t)"
    by (auto dest: AddRoundKey_inj [rotated 2])
  with "2.prems" show ?case by (auto dest: ShiftRows_inj [rotated 2] SubBytes_inj)
next
  case (3 s k rc rc' rcs)
  let ?k = "next_round_key rc k"
  let ?mix = "\<lambda>s. AddRoundKey (MixColumns (ShiftRows (SubBytes s))) ?k"
  have "?mix s = ?mix t"
    by (rule "3.IH" [OF refl]) (use "3.prems" in \<open>simp_all add: Let_def\<close>)
  with "3.prems" have "MixColumns (ShiftRows (SubBytes s)) = MixColumns (ShiftRows (SubBytes t))"
    by (auto dest: AddRoundKey_inj [rotated 2])
  then have "ShiftRows (SubBytes s) = ShiftRows (SubBytes t)" by (rule MixColumns_inj [rotated]) simp
  with "3.prems" show ?case by (auto dest: ShiftRows_inj [rotated 2] SubBytes_inj)
qed

interpretation aes: keyed_permutation aes128_encrypt
proof unfold_locales
  fix k b :: "byte list" assume "length k = 16" "length b = 16"
  then show "length (aes128_encrypt k b) = 16"
    by (simp add: aes128_encrypt_def length_aes_rounds)
next
  fix k a b :: "byte list"
  assume len: "length k = 16" "length a = 16" "length b = 16"
    and eq: "aes128_encrypt k a = aes128_encrypt k b"
  have "AddRoundKey a k = AddRoundKey b k"
    by (rule aes_rounds_inj [OF _ _ len(1) eq [unfolded aes128_encrypt_def]])
      (simp_all add: len)
  with len show "a = b" by (intro AddRoundKey_inj [of a k b]) simp_all
qed

subsection \<open>Evaluation in the kernel\<close>

text \<open>The equations with which \<open>simp\<close> computes the cipher on concrete bytes.\<close>

lemma next_round_key_bytes:
  "next_round_key rc [a0, a1, a2, a3, a4, a5, a6, a7, a8, a9, a10, a11, a12, a13, a14, a15] =
     (let b0 = a0 XOR sbox a13 XOR rc; b1 = a1 XOR sbox a14;
          b2 = a2 XOR sbox a15; b3 = a3 XOR sbox a12;
          b4 = a4 XOR b0; b5 = a5 XOR b1; b6 = a6 XOR b2; b7 = a7 XOR b3;
          b8 = a8 XOR b4; b9 = a9 XOR b5; b10 = a10 XOR b6; b11 = a11 XOR b7
      in [b0, b1, b2, b3, b4, b5, b6, b7, b8, b9, b10, b11,
          a12 XOR b8, a13 XOR b9, a14 XOR b10, a15 XOR b11])"
  by (simp add: next_round_key_def xor_word_def Let_def ac_simps)

lemma aes_rounds_step:
  "aes_rounds s k (rc # r # rcs) =
     aes_rounds (AddRoundKey (MixColumns (ShiftRows (SubBytes s))) (next_round_key rc k))
       (next_round_key rc k) (r # rcs)"
  by (simp add: Let_def)

declare aes_rounds.simps(3) [simp del]

lemmas aes_eval = aes128_encrypt_def round_constants_def aes_rounds_step next_round_key_bytes
  AddRoundKey_def SubBytes_def ShiftRows_def upt_16 mix_column_def xtime_def sbox_def sbox_row_def

end
