(* ===== verification/Byteutil.thy ===== *)
theory Byteutil
  imports Pigsy_Prelude
begin

section \<open>internal/byteutil: byte manipulation helpers\<close>

text \<open>
  The helpers of \<open>internal/byteutil/byteutil.go\<close>: padding to 16 bytes, the XOR and the
  reversal of 16-byte arrays, little-endian access, the XOR fold that the schedule
  records use as a checksum. A Go array \<open>[16]byte\<close> is a list of length 16.
\<close>

definition Pad16 :: "string \<Rightarrow> byte list" where
  "Pad16 s = go_copy (replicate 16 0) (bytes_of s)"

definition XOR16 :: "byte list \<Rightarrow> byte list \<Rightarrow> byte list" where
  "XOR16 a b = map (\<lambda>i. a ! i XOR b ! i) [0..<16]"

definition Reverse16 :: "byte list \<Rightarrow> byte list" where
  "Reverse16 b = map (\<lambda>i. b ! (15 - i)) [0..<16]"

definition PutLE16 :: "byte list \<Rightarrow> u16 \<Rightarrow> byte list option" where
  "PutLE16 dst v = PutUint16_LE dst v"

definition LE16 :: "byte list \<Rightarrow> u16 option" where
  "LE16 b = Uint16_LE b"

definition PutLE32 :: "byte list \<Rightarrow> u32 \<Rightarrow> byte list option" where
  "PutLE32 dst v = PutUint32_LE dst v"

definition LE32 :: "byte list \<Rightarrow> u32 option" where
  "LE32 b = Uint32_LE b"

fun xor_loop :: "byte \<Rightarrow> byte list \<Rightarrow> byte" where
  "xor_loop x [] = x"
| "xor_loop x (v # vs) = xor_loop (x XOR v) vs"

definition XORFold :: "byte list \<Rightarrow> byte" where
  "XORFold b = xor_loop 0 b"

subsection \<open>Sixteen-byte arrays\<close>

lemma length_Pad16 [simp, go_len]: "length (Pad16 s) = 16"
  by (simp add: Pad16_def)

lemma length_XOR16 [simp, go_len]: "length (XOR16 a b) = 16"
  by (simp add: XOR16_def)

lemma length_Reverse16 [simp, go_len]: "length (Reverse16 b) = 16"
  by (simp add: Reverse16_def)

lemma Reverse16_rev: "length b = 16 \<Longrightarrow> Reverse16 b = rev b"
  by (intro nth_equalityI) (auto simp: Reverse16_def rev_nth)

lemma Reverse16_involution: "length b = 16 \<Longrightarrow> Reverse16 (Reverse16 b) = b"
  by (simp add: Reverse16_rev)

lemma Reverse16_inj:
  "length a = 16 \<Longrightarrow> length b = 16 \<Longrightarrow> (Reverse16 a = Reverse16 b) = (a = b)"
  by (simp add: Reverse16_rev)

lemma XOR16_cancel:
  "length a = 16 \<Longrightarrow> length b = 16 \<Longrightarrow> XOR16 (XOR16 a b) b = a"
  by (intro nth_equalityI) (auto simp: XOR16_def)

lemma nth_Pad16: "i < 16 \<Longrightarrow> Pad16 s ! i = (if i < length s then of_char (s ! i) else 0)"
  by (auto simp: Pad16_def nth_go_copy bytes_of_def)

subsection \<open>The XOR fold\<close>

lemma xor_loop_acc: "xor_loop x b = x XOR xor_loop 0 b"
proof (induction b arbitrary: x)
  case Nil
  then show ?case by simp
next
  case (Cons v vs)
  from Cons [of "x XOR v"] Cons [of v] show ?case by (simp add: xor.assoc)
qed

lemma XORFold_Nil [simp]: "XORFold [] = 0"
  by (simp add: XORFold_def)

lemma XORFold_Cons [simp]: "XORFold (v # vs) = v XOR XORFold vs"
  by (simp add: XORFold_def xor_loop_acc [of v])

lemma XORFold_append [simp]: "XORFold (a @ b) = XORFold a XOR XORFold b"
  by (induction a) (simp_all add: xor.assoc)

lemma XORFold_update:
  "i < length b \<Longrightarrow> XORFold (b[i := v]) = XORFold b XOR (b ! i) XOR v"
  by (induction b arbitrary: i) (auto split: nat.splits simp: ac_simps)

text \<open>Appending the fold makes the whole fold zero: how a receiver checks the byte.\<close>

lemma XORFold_checksum: "XORFold (b @ [XORFold b]) = 0"
  by simp

lemma XORFold_single_change:
  assumes "i < length b" "v \<noteq> b ! i"
  shows "XORFold (b[i := v] @ [XORFold b]) \<noteq> 0"
proof
  assume "XORFold (b[i := v] @ [XORFold b]) = 0"
  moreover have "XORFold (b[i := v] @ [XORFold b]) = b ! i XOR v"
    using assms(1) by (simp add: XORFold_update ac_simps)
  ultimately show False using assms(2) by (metis xor_self_eq xor.right_neutral xor.assoc xor.left_neutral)
qed

subsection \<open>Little-endian access\<close>

lemma LE16_PutLE16: "2 \<le> length dst \<Longrightarrow> Option.bind (PutLE16 dst v) LE16 = Some v"
  by (simp add: PutLE16_def LE16_def PutUint16_LE_def Uint16_LE_def)

lemma LE32_PutLE32: "4 \<le> length dst \<Longrightarrow> Option.bind (PutLE32 dst v) LE32 = Some v"
  by (simp add: PutLE32_def LE32_def PutUint32_LE_def Uint32_LE_def)

end
