(* ===== verification/Crypto.thy ===== *)
theory Crypto
  imports Byteutil Block_Cipher
begin

section \<open>crypto: reversed AES, nonces, CBC-MAC and CTR\<close>

text \<open>
  The primitives of \<open>crypto/crypto.go\<close>. The two loops of \<open>cbcMAC\<close> and \<open>ctrCrypt\<close> are
  recursive functions over the remaining data with the loop index \<open>i\<close> as an argument;
  Go's \<open>i & 0xF\<close> on the non-negative index is \<open>i mod 16\<close>. The lemmas give each loop its
  closed form: the keystream byte by byte, and the MAC as a fold of the cipher over
  16-byte blocks.
\<close>

definition ReversedAES :: "byte list \<Rightarrow> byte list \<Rightarrow> byte list" where
  "ReversedAES key plaintext =
     (let rk = Reverse16 key;
          rp = Reverse16 plaintext;
          ct = aes128_encrypt rk rp
      in Reverse16 ct)"

definition CommandNonce :: "byte list \<Rightarrow> byte list \<Rightarrow> byte list" where
  "CommandNonce gwMAC sno =
     [gwMAC ! 5, gwMAC ! 4, gwMAC ! 3, gwMAC ! 2, 0x01, sno ! 0, sno ! 1, sno ! 2]"

definition NotificationNonce :: "byte list \<Rightarrow> byte list \<Rightarrow> u16 \<Rightarrow> byte list" where
  "NotificationNonce gwMAC sno srcAddr =
     [gwMAC ! 5, gwMAC ! 4, gwMAC ! 3, sno ! 0, sno ! 1, sno ! 2, lo8 srcAddr, hi8 srcAddr]"

text \<open>\<open>mac_loop sk n i ds state\<close> is the loop of \<open>cbcMAC\<close> from index \<open>i\<close> on, \<open>n = len(data)\<close>.\<close>

fun mac_loop :: "byte list \<Rightarrow> nat \<Rightarrow> nat \<Rightarrow> byte list \<Rightarrow> byte list \<Rightarrow> byte list" where
  "mac_loop sk n i [] state = state"
| "mac_loop sk n i (d # ds) state =
     (let state' = state[i mod 16 := state ! (i mod 16) XOR d]
      in mac_loop sk n (Suc i) ds
           (if i mod 16 = 15 \<or> Suc i = n then ReversedAES sk state' else state'))"

definition mac_b0 :: "byte list \<Rightarrow> nat \<Rightarrow> byte list" where
  "mac_b0 nonce n = (go_copy (replicate 16 0) nonce)[8 := word_of_nat n]"

definition cbcMAC :: "byte list \<Rightarrow> byte list \<Rightarrow> byte list \<Rightarrow> byte list" where
  "cbcMAC sk nonce data =
     (let state = mac_loop sk (length data) 0 data (ReversedAES sk (mac_b0 nonce (length data)))
      in [state ! 0, state ! 1])"

fun ctr_loop :: "byte list \<Rightarrow> nat \<Rightarrow> byte list \<Rightarrow> byte list \<Rightarrow> byte list \<Rightarrow> byte list" where
  "ctr_loop sk i [] ctrBlock keystream = []"
| "ctr_loop sk i (d # ds) ctrBlock keystream =
     (let keystream' = (if i mod 16 = 0 then ReversedAES sk ctrBlock else keystream);
          ctrBlock' = (if i mod 16 = 0 then ctrBlock[0 := ctrBlock ! 0 + 1] else ctrBlock)
      in (d XOR keystream' ! (i mod 16)) # ctr_loop sk (Suc i) ds ctrBlock' keystream')"

definition ctrCrypt :: "byte list \<Rightarrow> byte list \<Rightarrow> byte list \<Rightarrow> byte list" where
  "ctrCrypt sk nonce data =
     ctr_loop sk 0 data (go_copy_at 1 (replicate 16 0) nonce) (replicate 16 0)"

definition Encrypt :: "byte list \<Rightarrow> byte list \<Rightarrow> byte list \<Rightarrow> byte list \<Rightarrow> byte list" where
  "Encrypt sk nonce sno plaintext =
     (let tag = cbcMAC sk nonce plaintext;
          ct = ctrCrypt sk nonce plaintext
      in sno @ tag @ ct)"

definition Decrypt :: "byte list \<Rightarrow> byte list \<Rightarrow> byte list \<Rightarrow> byte list \<Rightarrow> go_error + byte list" where
  "Decrypt sk nonce tag ciphertext =
     (let plaintext = ctrCrypt sk nonce ciphertext;
          expected = cbcMAC sk nonce plaintext
      in if expected \<noteq> tag then Inl (Errorf ''pigsydust/crypto: CBC-MAC tag mismatch'')
         else Inr plaintext)"

subsection \<open>Reversed AES is a keyed permutation too\<close>

interpretation raes: keyed_permutation ReversedAES
proof unfold_locales
  fix k a b :: "byte list"
  assume "length k = 16" "length a = 16" "length b = 16" "ReversedAES k a = ReversedAES k b"
  then show "a = b"
    by (simp add: ReversedAES_def Reverse16_inj aes.E_length aes.E_eq_iff)
qed (simp add: ReversedAES_def)

lemma length_ReversedAES [simp, go_len]: "length (ReversedAES k b) = 16"
  by (simp add: ReversedAES_def Let_def)

lemma length_CommandNonce [simp, go_len]: "length (CommandNonce m s) = 8"
  by (simp add: CommandNonce_def)

lemma length_NotificationNonce [simp, go_len]: "length (NotificationNonce m s a) = 8"
  by (simp add: NotificationNonce_def)

lemma length_cbcMAC [simp, go_len]: "length (cbcMAC sk nonce data) = 2"
  by (simp add: cbcMAC_def Let_def)

subsection \<open>CTR: the keystream\<close>

text \<open>The block that produces keystream bytes \<open>16 c .. 16 c + 15\<close>; its counter byte wraps.\<close>

definition ctr_block :: "byte list \<Rightarrow> nat \<Rightarrow> byte list" where
  "ctr_block nonce c = word_of_nat c # nonce @ replicate 7 0"

definition keystream_byte :: "byte list \<Rightarrow> byte list \<Rightarrow> nat \<Rightarrow> byte" where
  "keystream_byte sk nonce i = ReversedAES sk (ctr_block nonce (i div 16)) ! (i mod 16)"

lemma ctr_loop_keystream:
  assumes "ctrBlock = ctr_block nonce ((i + 15) div 16)"
    and "i mod 16 \<noteq> 0 \<Longrightarrow> keystream = ReversedAES sk (ctr_block nonce (i div 16))"
  shows "ctr_loop sk i data ctrBlock keystream =
           map (\<lambda>j. data ! j XOR keystream_byte sk nonce (i + j)) [0..<length data]"
  using assms
proof (induction data arbitrary: i ctrBlock keystream)
  case Nil
  then show ?case by simp
next
  case (Cons d ds)
  let ?ks = "if i mod 16 = 0 then ReversedAES sk ctrBlock else keystream"
  let ?ctr = "if i mod 16 = 0 then ctrBlock[0 := ctrBlock ! 0 + 1] else ctrBlock"
  have div0: "(i + 15) div 16 = i div 16" if "i mod 16 = 0"
    using that by (rule ceil16_aligned)
  have ks: "?ks = ReversedAES sk (ctr_block nonce (i div 16))"
  proof (cases "i mod 16 = 0")
    case True
    then show ?thesis by (simp add: Cons.prems(1) div0 [OF True])
  next
    case False
    from Cons.prems(2) [OF this] False show ?thesis by (simp only: if_False)
  qed
  have "?ctr = ctr_block nonce ((Suc i + 15) div 16)"
  proof (cases "i mod 16 = 0")
    case True
    then have "(Suc i + 15) div 16 = Suc (i div 16)" by simp
    with True show ?thesis
      by (simp add: Cons.prems(1) div0 [OF True] ctr_block_def add.commute)
  next
    case False
    then have "(Suc i + 15) div 16 = (i + 15) div 16" by (simp only: ceil16_Suc if_False)
    with False show ?thesis by (simp only: if_False Cons.prems(1))
  qed
  moreover have "?ks = ReversedAES sk (ctr_block nonce (Suc i div 16))" if "Suc i mod 16 \<noteq> 0"
  proof -
    from that have "Suc i div 16 = i div 16" by (simp only: div_Suc if_False)
    with ks show ?thesis by (simp only:)
  qed
  ultimately have "ctr_loop sk (Suc i) ds ?ctr ?ks =
      map (\<lambda>j. ds ! j XOR keystream_byte sk nonce (Suc i + j)) [0..<length ds]"
    by (rule Cons.IH)
  then show ?case
    by (simp add: Let_def ks keystream_byte_def upt_conv_Cons map_Suc_upt [symmetric] del: upt_Suc)
qed

theorem ctrCrypt_keystream:
  assumes "length nonce = 8"
  shows "ctrCrypt sk nonce data =
           map (\<lambda>i. data ! i XOR keystream_byte sk nonce i) [0..<length data]"
proof -
  have "go_copy_at 1 (replicate 16 0) nonce = ctr_block nonce ((0 + 15) div 16)"
    using assms by (simp add: go_copy_at_def go_copy_def ctr_block_def)
  from ctr_loop_keystream [OF this] show ?thesis by (simp add: ctrCrypt_def)
qed

lemma length_ctr_loop [simp]: "length (ctr_loop sk i data c k) = length data"
  by (induction data arbitrary: i c k) (simp_all add: Let_def)

lemma length_ctrCrypt [simp, go_len]: "length (ctrCrypt sk nonce data) = length data"
  by (simp add: ctrCrypt_def)

lemma ctrCrypt_involution:
  "length nonce = 8 \<Longrightarrow> ctrCrypt sk nonce (ctrCrypt sk nonce data) = data"
  by (rule nth_equalityI) (simp_all add: ctrCrypt_keystream)

lemma length_Encrypt [simp, go_len]:
  "length (Encrypt sk nonce sno pt) = length sno + 2 + length pt"
  by (simp add: Encrypt_def Let_def)

subsection \<open>CTR: distinct counters, reused nonces\<close>

text \<open>
  Within a packet of at most 4096 bytes the counter byte does not wrap, and the keystream
  blocks are pairwise different.
\<close>

lemma ctr_block_inj:
  assumes "c < 256" "c' < 256" "length n = length n'" "ctr_block n c = ctr_block n' c'"
  shows "c = c' \<and> n = n'"
proof -
  have "(word_of_nat c :: byte) = word_of_nat c'" "n = n'"
    using assms(3,4) by (simp_all add: ctr_block_def)
  moreover from this(1) have "take_bit 8 c = take_bit 8 c'"
    by (simp add: word_of_nat_eq_iff)
  ultimately show ?thesis
    using assms(1,2) take_bit_nat_eq_self_iff [of 8 c] take_bit_nat_eq_self_iff [of 8 c'] by simp
qed

lemma length_ctr_block [simp]: "length n = 8 \<Longrightarrow> length (ctr_block n c) = 16"
  by (simp add: ctr_block_def)

lemma keystream_blocks_distinct:
  assumes "length sk = 16" "length n = 8" "length n' = 8" "c < 256" "c' < 256"
    and "ReversedAES sk (ctr_block n c) = ReversedAES sk (ctr_block n' c')"
  shows "c = c' \<and> n = n'"
proof -
  have "ctr_block n c = ctr_block n' c'"
    by (rule raes.E_inj [OF assms(1) _ _ assms(6)]) (simp_all add: assms)
  with assms(2-5) show ?thesis by (intro ctr_block_inj) simp_all
qed

text \<open>Encrypting twice under one nonce reveals the XOR of the plaintexts.\<close>

lemma ctrCrypt_reuse:
  assumes "length nonce = 8" "length p = length q"
  shows "map2 (XOR) (ctrCrypt sk nonce p) (ctrCrypt sk nonce q) = map2 (XOR) p q"
proof (rule nth_equalityI)
  fix i assume "i < length (map2 (XOR) (ctrCrypt sk nonce p) (ctrCrypt sk nonce q))"
  with assms have i: "i < length p" "i < length q" by simp_all
  have "(a XOR k) XOR (b XOR k) = a XOR b" for a b k :: byte
    by (simp add: ac_simps)
  with assms i show "map2 (XOR) (ctrCrypt sk nonce p) (ctrCrypt sk nonce q) ! i = map2 (XOR) p q ! i"
    by (simp add: ctrCrypt_keystream)
qed (simp add: assms(2))

subsection \<open>CBC-MAC as a fold over blocks\<close>

definition xor_prefix :: "byte list \<Rightarrow> byte list \<Rightarrow> byte list" where
  "xor_prefix state blk = map2 (XOR) (take (length blk) state) blk @ drop (length blk) state"

fun mac_blocks :: "byte list \<Rightarrow> byte list \<Rightarrow> byte list \<Rightarrow> byte list" where
  "mac_blocks sk state [] = state"
| "mac_blocks sk state (d # ds) =
     mac_blocks sk (ReversedAES sk (xor_prefix state (take 16 (d # ds)))) (drop 16 (d # ds))"

lemma length_xor_prefix [simp]:
  "length blk \<le> length state \<Longrightarrow> length (xor_prefix state blk) = length state"
  by (simp add: xor_prefix_def)

lemma nth_xor_prefix:
  "length blk \<le> length state \<Longrightarrow> i < length state \<Longrightarrow>
   xor_prefix state blk ! i = (if i < length blk then state ! i XOR blk ! i else state ! i)"
  by (auto simp: xor_prefix_def nth_append)

lemma xor_prefix_inj:
  assumes "length a = length b" "length a \<le> length s" "xor_prefix s a = xor_prefix s b"
  shows "a = b"
proof (rule nth_equalityI [OF assms(1)])
  fix i assume i: "i < length a"
  from assms(3) have "xor_prefix s a ! i = xor_prefix s b ! i" by simp
  with assms(1,2) i show "a ! i = b ! i" by (simp add: nth_xor_prefix)
qed

text \<open>Inside a block the loop only XORs; at its last byte it encrypts.\<close>

definition xor_at :: "nat \<Rightarrow> byte list \<Rightarrow> byte list \<Rightarrow> byte list" where
  "xor_at k state blk = take k state @ xor_prefix (drop k state) blk"

lemma xor_at_Cons:
  assumes "k < length state"
  shows "xor_at (Suc k) (state[k := state ! k XOR d]) ds = xor_at k state (d # ds)"
  using assms
  by (simp add: xor_at_def xor_prefix_def take_Suc_conv_app_nth drop_update_swap
      Cons_nth_drop_Suc [symmetric] take_update_swap list_update_append)

lemma mac_loop_inside:
  assumes "i mod 16 + length blk < 16" "i + length blk < n" "length state = 16"
  shows "mac_loop sk n i (blk @ rest) state =
           mac_loop sk n (i + length blk) rest (xor_at (i mod 16) state blk)"
  using assms
proof (induction blk arbitrary: i state)
  case Nil
  then show ?case by (simp add: xor_at_def xor_prefix_def)
next
  case (Cons d ds)
  let ?s = "state[i mod 16 := state ! (i mod 16) XOR d]"
  have m: "Suc i mod 16 = Suc (i mod 16)" using Cons.prems(1) by (simp add: mod_Suc)
  have "mac_loop sk n i ((d # ds) @ rest) state = mac_loop sk n (Suc i) (ds @ rest) ?s"
    using Cons.prems(1,2) by (simp add: Let_def)
  also have "\<dots> = mac_loop sk n (Suc i + length ds) rest (xor_at (Suc i mod 16) ?s ds)"
    using Cons.prems m by (intro Cons.IH) simp_all
  also have "xor_at (Suc i mod 16) ?s ds = xor_at (i mod 16) state (d # ds)"
    unfolding m using Cons.prems(3) by (intro xor_at_Cons) simp
  finally show ?case by simp
qed

lemma xor_prefix_snoc:
  assumes "length b < length state"
  shows "(xor_prefix state b)[length b := xor_prefix state b ! length b XOR d] =
           xor_prefix state (b @ [d])"
  using assms
  by (intro nth_equalityI) (auto simp: nth_list_update nth_xor_prefix nth_append)

lemma mac_loop_block:
  assumes i: "i mod 16 = 0" and blk: "blk \<noteq> []" "length blk \<le> 16"
    and full: "length blk = 16 \<or> rest = []"
    and n: "n = i + length blk + length rest" and st: "length state = 16"
  shows "mac_loop sk n i (blk @ rest) state =
           mac_loop sk n (i + length blk) rest (ReversedAES sk (xor_prefix state blk))"
proof -
  obtain b d where bd: "blk = b @ [d]" using blk(1) by (cases blk rule: rev_cases) auto
  let ?s = "xor_prefix state b"
  have len: "length b < 16" using blk(2) bd by simp
  have m: "(i + length b) mod 16 = length b" using i len by (simp add: mod_add_left_eq [symmetric])
  have "mac_loop sk n i (blk @ rest) state = mac_loop sk n (i + length b) (d # rest) ?s"
    using mac_loop_inside [of i b n state sk "d # rest"] i len n st bd
    by (simp add: xor_at_def)
  also have "\<dots> = mac_loop sk n (i + length blk) rest
      (ReversedAES sk (?s[length b := ?s ! length b XOR d]))"
    using full n bd m len by (auto simp: Let_def)
  also have "?s[length b := ?s ! length b XOR d] = xor_prefix state blk"
    unfolding bd by (rule xor_prefix_snoc) (simp add: st len)
  finally show ?thesis .
qed

lemma mac_loop_blocks:
  "i mod 16 = 0 \<Longrightarrow> n = i + length data \<Longrightarrow> length state = 16 \<Longrightarrow>
   mac_loop sk n i data state = mac_blocks sk state data"
proof (induction sk state data arbitrary: i rule: mac_blocks.induct)
  case (1 sk state)
  then show ?case by simp
next
  case (2 sk state d ds)
  let ?blk = "take 16 (d # ds)" and ?rest = "drop 16 (d # ds)"
  have "mac_loop sk n i (?blk @ ?rest) state =
      mac_loop sk n (i + length ?blk) ?rest (ReversedAES sk (xor_prefix state ?blk))"
    using "2.prems" by (intro mac_loop_block) auto
  also have "\<dots> = mac_blocks sk (ReversedAES sk (xor_prefix state ?blk)) ?rest"
  proof (cases "?rest = []")
    case True
    then show ?thesis by simp
  next
    case False
    then have "length ?blk = 16" by auto
    with "2.prems" show ?thesis by (intro "2.IH") auto
  qed
  finally show ?case by (simp only: append_take_drop_id mac_blocks.simps)
qed

lemma length_mac_b0 [simp]: "length (mac_b0 nonce n) = 16"
  by (simp add: mac_b0_def)

definition mac_state :: "byte list \<Rightarrow> byte list \<Rightarrow> byte list \<Rightarrow> byte list" where
  "mac_state sk nonce data =
     mac_blocks sk (ReversedAES sk (mac_b0 nonce (length data))) data"

theorem cbcMAC_blocks: "cbcMAC sk nonce data = take 2 (mac_state sk nonce data)"
proof -
  have len: "length (mac_blocks sk st ds) = 16" if "length st = 16" for st ds
    using that by (induction sk st ds rule: mac_blocks.induct) simp_all
  have "mac_loop sk (length data) 0 data (ReversedAES sk (mac_b0 nonce (length data))) =
      mac_state sk nonce data"
    unfolding mac_state_def by (rule mac_loop_blocks) simp_all
  moreover have "[xs ! 0, xs ! 1] = take 2 xs" if "length xs = 16" for xs :: "byte list"
    using that by (intro nth_equalityI) (auto simp: less_Suc_eq numeral_2_eq_2)
  ultimately show ?thesis using len [of "ReversedAES sk (mac_b0 nonce (length data))" data]
    by (simp add: cbcMAC_def mac_state_def)
qed

lemma mac_state_one_block:
  "data \<noteq> [] \<Longrightarrow> length data \<le> 16 \<Longrightarrow>
   mac_state sk nonce data =
     ReversedAES sk (xor_prefix (ReversedAES sk (mac_b0 nonce (length data))) data)"
  by (cases data) (simp_all add: mac_state_def)

text \<open>
  On plaintexts of one block, as all commands and notifications are, the state the tag is
  cut from is an injective function of the plaintext.
\<close>

lemma mac_state_inj:
  assumes "length sk = 16" "length p = length q" "length p \<le> 16"
    and eq: "mac_state sk nonce p = mac_state sk nonce q"
  shows "p = q"
proof (cases "p = []")
  case True
  with assms(2) show ?thesis by simp
next
  case False
  let ?x = "ReversedAES sk (mac_b0 nonce (length p))"
  have "q \<noteq> []" "length q \<le> 16" using False assms(2,3) by auto
  from eq mac_state_one_block [OF False assms(3), of sk nonce]
    mac_state_one_block [OF this, of sk nonce]
  have "ReversedAES sk (xor_prefix ?x p) = ReversedAES sk (xor_prefix ?x q)"
    by (simp only: assms(2))
  then have "xor_prefix ?x p = xor_prefix ?x q"
    using assms(2,3) by (simp add: raes.E_eq_iff [OF assms(1)])
  then show ?thesis using assms(2,3) by (intro xor_prefix_inj [of p q ?x]) simp_all
qed

subsection \<open>Encrypt and Decrypt\<close>

lemma Decrypt_Inr_iff:
  "Decrypt sk nonce tag ct = Inr pt \<longleftrightarrow>
     pt = ctrCrypt sk nonce ct \<and> tag = cbcMAC sk nonce pt"
  by (auto simp: Decrypt_def Let_def)

lemma Decrypt_Inl_iff:
  "Decrypt sk nonce tag ct = Inl e \<longleftrightarrow>
     e = Errorf ''pigsydust/crypto: CBC-MAC tag mismatch'' \<and>
     tag \<noteq> cbcMAC sk nonce (ctrCrypt sk nonce ct)"
  by (auto simp: Decrypt_def Let_def)

lemma Decrypt_Encrypt:
  assumes "length nonce = 8" "length sno = 3"
  shows "Decrypt sk nonce (take 2 (drop 3 (Encrypt sk nonce sno pt)))
           (drop 5 (Encrypt sk nonce sno pt)) = Inr pt"
  using assms by (simp add: Encrypt_def Let_def Decrypt_Inr_iff ctrCrypt_involution)

lemma Decrypt_Encrypt_parts:
  "length nonce = 8 \<Longrightarrow> Decrypt sk nonce (cbcMAC sk nonce pt) (ctrCrypt sk nonce pt) = Inr pt"
  by (simp add: Decrypt_Inr_iff ctrCrypt_involution)

end
