(* ===== verification/Login.thy ===== *)
theory Login
  imports Crypto
begin

section \<open>crypto/login.go: the pairing handshake and the session key\<close>

text \<open>
  The request written to the pairing characteristic, the reading of its response and the
  derivation of the session key. The names and passwords are strings of any length; the
  two random challenges are arrays of 8 bytes.
\<close>

definition LoginRequestTag :: byte where
  [go_const]: "LoginRequestTag = 0x0C"

definition LoginResponseTag :: byte where
  [go_const]: "LoginResponseTag = 0x0D"

definition BuildLoginRequest :: "string \<Rightarrow> string \<Rightarrow> byte list \<Rightarrow> byte list" where
  "BuildLoginRequest name password randA =
     (let key = go_copy (replicate 16 0) randA;
          nameBuf = Pad16 name;
          passBuf = Pad16 password;
          pt = XOR16 nameBuf passBuf;
          ct = ReversedAES key pt;
          req = (replicate 17 0)[0 := LoginRequestTag];
          req = go_copy_at 1 req randA
      in go_copy_at 9 req (take 8 ct))"

definition ParseLoginResponse :: "byte list \<Rightarrow> go_error + byte list" where
  "ParseLoginResponse resp =
     (if length resp < 17 then
        Inl (Errorf ''pigsydust/crypto: login response too short (%d bytes)'')
      else if resp ! 0 \<noteq> LoginResponseTag then
        Inl (Errorf ''pigsydust/crypto: login response bad tag 0x%02x'')
      else Inr (take 8 (drop 1 resp)))"

definition DeriveSessionKey :: "string \<Rightarrow> string \<Rightarrow> byte list \<Rightarrow> byte list \<Rightarrow> byte list" where
  "DeriveSessionKey name password randA randB =
     (let key = XOR16 (Pad16 name) (Pad16 password);
          pt = go_copy (replicate 16 0) randA;
          pt = go_copy_at 8 pt randB
      in ReversedAES key pt)"

subsection \<open>The layout of the request\<close>

lemma BuildLoginRequest_layout:
  assumes "length randA = 8"
  shows "BuildLoginRequest name password randA =
           LoginRequestTag # randA @
             take 8 (ReversedAES (randA @ replicate 8 0) (XOR16 (Pad16 name) (Pad16 password)))"
proof -
  have key: "go_copy (replicate 16 0) randA = randA @ replicate 8 0"
    using assms by (simp add: go_copy_def)
  have tag: "(replicate 17 (0 :: byte))[0 := LoginRequestTag] = LoginRequestTag # replicate 16 0"
    by (simp add: numeral_eq_Suc)
  show ?thesis
    using assms by (simp add: BuildLoginRequest_def Let_def key tag go_copy_at_def go_copy_def)
qed

lemma length_BuildLoginRequest [go_len]: "length (BuildLoginRequest name password randA) = 17"
  by (simp add: BuildLoginRequest_def Let_def)

lemma ParseLoginResponse_Inr:
  "ParseLoginResponse resp = Inr randB \<longleftrightarrow>
     17 \<le> length resp \<and> resp ! 0 = LoginResponseTag \<and> randB = take 8 (drop 1 resp)"
  by (auto simp: ParseLoginResponse_def)

lemma length_ParseLoginResponse: "ParseLoginResponse resp = Inr randB \<Longrightarrow> length randB = 8"
  by (auto simp: ParseLoginResponse_Inr)

subsection \<open>The session key\<close>

lemma DeriveSessionKey_block:
  assumes "length randA = 8" "length randB = 8"
  shows "DeriveSessionKey name password randA randB =
           ReversedAES (XOR16 (Pad16 name) (Pad16 password)) (randA @ randB)"
  using assms by (simp add: DeriveSessionKey_def Let_def go_copy_at_def go_copy_def)

lemma length_DeriveSessionKey [simp, go_len]:
  "length (DeriveSessionKey name password randA randB) = 16"
  by (simp add: DeriveSessionKey_def Let_def)

lemma DeriveSessionKey_eq_iff:
  assumes "length a = 8" "length b = 8" "length a' = 8" "length b' = 8"
  shows "DeriveSessionKey name password a b = DeriveSessionKey name password a' b' \<longleftrightarrow>
           a = a' \<and> b = b'"
  using assms by (simp add: DeriveSessionKey_block raes.E_eq_iff)

lemma DeriveSessionKey_swap:
  "DeriveSessionKey name password a b = DeriveSessionKey password name a b"
  by (simp add: DeriveSessionKey_def XOR16_def xor.commute)

end
