(* ===== verification/Address_MAC.thy ===== *)
theory Address_MAC
  imports Pigsy_Prelude
begin

section \<open>address.go and types.go: mesh addresses and MAC addresses\<close>

text \<open>
  An address is a 16-bit word, with the partition of \<open>address.go\<close>. A \<open>MACAddress\<close> is a
  list of 6 bytes in printed order; its printing (\<open>%02X\<close> joined by colons) and its parser.
\<close>

type_synonym Address = u16
type_synonym MACAddress = "byte list"

subsection \<open>Mesh addresses\<close>

definition AddrBroadcast :: Address where
  [go_const]: "AddrBroadcast = 0xFFFF"

definition AddrBroadcastPoll :: Address where
  [go_const]: "AddrBroadcastPoll = 0x7FFF"

definition AddrScheduleCoord :: Address where
  [go_const]: "AddrScheduleCoord = 0x0030"

definition groupAddrBit :: u16 where
  [go_const]: "groupAddrBit = 0x8000"

definition IsGroup :: "Address \<Rightarrow> bool" where
  "IsGroup a \<longleftrightarrow> a AND groupAddrBit \<noteq> 0 \<and> a \<noteq> AddrBroadcast"

definition IsIndividual :: "Address \<Rightarrow> bool" where
  "IsIndividual a \<longleftrightarrow> a \<noteq> 0 \<and> a < 0x7FFF"

definition GroupID :: "Address \<Rightarrow> byte" where
  "GroupID a = (if \<not> IsGroup a then 0 else ucast (a AND 0x00FF))"

definition GroupAddress :: "byte \<Rightarrow> Address" where
  "GroupAddress gid = groupAddrBit OR ucast gid"

lemma bit_groupAddrBit: "bit groupAddrBit n \<longleftrightarrow> n = 15"
proof -
  have "groupAddrBit = 2 ^ 15" by (simp add: groupAddrBit_def)
  then have "bit groupAddrBit n = bit (2 ^ 15 :: u16) n" by (rule arg_cong)
  also have "\<dots> \<longleftrightarrow> n = 15" unfolding bit_exp_iff by auto
  finally show ?thesis .
qed

lemma groupAddrBit_and: "a AND groupAddrBit \<noteq> 0 \<longleftrightarrow> bit a 15" for a :: u16
proof
  assume "a AND groupAddrBit \<noteq> 0"
  then obtain n where "bit (a AND groupAddrBit) n"
    by (metis bit_eq_iff bit_0_eq bot_apply bot_bool_def)
  then show "bit a 15" by (auto simp: bit_simps bit_groupAddrBit)
next
  assume "bit a 15"
  then have "bit (a AND groupAddrBit) 15" by (simp add: bit_simps bit_groupAddrBit)
  then show "a AND groupAddrBit \<noteq> 0" by auto
qed

lemma high_bit_iff: "bit a 15 \<longleftrightarrow> 0x8000 \<le> a" for a :: u16
proof -
  have "bit a 15 \<longleftrightarrow> odd (unat a div 2 ^ 15)"
    by (simp only: bit_iff_odd [of "unat a", symmetric] bit_unsigned_iff [where ?'b = 16, symmetric]
        possible_bit_nat True_implies_equals) (simp add: bit_simps)
  moreover have "unat a < 2 ^ 16" using unsigned_less [where 'a = nat, of a] by simp
  moreover have "0x8000 \<le> a \<longleftrightarrow> 2 ^ 15 \<le> unat a" by (simp add: word_le_nat_alt)
  ultimately show ?thesis by (auto simp: odd_iff_mod_2_eq_one)
qed

lemma IsGroup_iff: "IsGroup a \<longleftrightarrow> 0x8000 \<le> a \<and> a \<noteq> AddrBroadcast"
  by (simp add: IsGroup_def groupAddrBit_and high_bit_iff)

lemma GroupAddress_bits:
  "bit (GroupAddress gid) n \<longleftrightarrow> n = 15 \<or> (n < 8 \<and> bit gid n)"
  by (auto simp: GroupAddress_def bit_simps bit_groupAddrBit dest: bit_imp_le_length)

lemma GroupAddress_not_broadcast: "GroupAddress gid \<noteq> AddrBroadcast"
proof
  assume "GroupAddress gid = AddrBroadcast"
  then have "bit (GroupAddress gid) 8 = bit AddrBroadcast 8" by simp
  then show False by (simp add: GroupAddress_bits AddrBroadcast_def)
qed

lemma IsGroup_GroupAddress: "IsGroup (GroupAddress gid)"
  by (simp add: IsGroup_def groupAddrBit_and GroupAddress_bits GroupAddress_not_broadcast)

lemma GroupID_GroupAddress: "GroupID (GroupAddress gid) = gid"
proof -
  have "GroupAddress gid AND 0x00FF = take_bit 8 (GroupAddress gid)"
    by (simp add: take_bit_eq_mask mask_numeral)
  moreover have "ucast (take_bit 8 (GroupAddress gid)) = gid"
    by (rule bit_word_eqI) (auto simp: bit_simps GroupAddress_bits)
  ultimately have "ucast (GroupAddress gid AND 0x00FF) = gid" by simp
  then show ?thesis by (simp add: GroupID_def IsGroup_GroupAddress)
qed

subsection \<open>MAC addresses\<close>

definition MAC_String :: "MACAddress \<Rightarrow> string" where
  "MAC_String m =
     fmt_02X (m ! 0) @ '':'' @ fmt_02X (m ! 1) @ '':'' @ fmt_02X (m ! 2) @ '':'' @
     fmt_02X (m ! 3) @ '':'' @ fmt_02X (m ! 4) @ '':'' @ fmt_02X (m ! 5)"

definition GatewayMAC5 :: "MACAddress \<Rightarrow> byte" where
  "GatewayMAC5 m = m ! 5"

text \<open>The loop over the six parts: the first bad octet ends it.\<close>

fun mac_octets :: "nat \<Rightarrow> string list \<Rightarrow> MACAddress \<Rightarrow> go_error + MACAddress" where
  "mac_octets i [] m = Inr m"
| "mac_octets i (p # ps) m =
     (case hex_DecodeString p of
        None \<Rightarrow> Inl (Errorf ''pigsydust: MAC %q: bad octet %q'')
      | Some b \<Rightarrow>
          if length b \<noteq> 1 then Inl (Errorf ''pigsydust: MAC %q: bad octet %q'')
          else mac_octets (Suc i) ps (m[i := b ! 0]))"

definition ParseMAC :: "string \<Rightarrow> go_error + MACAddress" where
  "ParseMAC s =
     (let parts = FieldsFunc (\<lambda>r. r = CHR '':'' \<or> r = CHR ''-'') s
      in if length parts \<noteq> 6 then Inl (Errorf ''pigsydust: MAC %q: want 6 octets, got %d'')
         else mac_octets 0 parts (replicate 6 0))"

lemma fmt_02X_fields:
  "list_all (\<lambda>c. \<not> (c = CHR '':'' \<or> c = CHR ''-'')) (fmt_02X b)" "fmt_02X b \<noteq> []"
  using upper_digit_no_separator [OF unat_byte_div, of b]
    upper_digit_no_separator [of "unat b mod 16"]
  by (auto simp: fmt_02X_def)

lemma FieldsFunc_MAC_String:
  "FieldsFunc (\<lambda>r. r = CHR '':'' \<or> r = CHR ''-'') (MAC_String m) =
     [fmt_02X (m ! 0), fmt_02X (m ! 1), fmt_02X (m ! 2), fmt_02X (m ! 3), fmt_02X (m ! 4),
      fmt_02X (m ! 5)]"
  unfolding FieldsFunc_def MAC_String_def
  by (simp only: append_Cons append_Nil fields_loop_word fields_loop_last fmt_02X_fields simp_thms)

lemma ParseMAC_String:
  assumes "length m = 6"
  shows "ParseMAC (MAC_String m) = Inr m"
proof -
  obtain a b c d e f where m: "m = [a, b, c, d, e, f]"
    using assms by (auto simp: numeral_eq_Suc length_Suc_conv)
  show ?thesis
    unfolding ParseMAC_def FieldsFunc_MAC_String
    by (simp add: hex_DecodeString_02X numeral_eq_Suc m)
qed

lemma mac_octets_length: "mac_octets i ps m = Inr m' \<Longrightarrow> length m' = length m"
  by (induction i ps m rule: mac_octets.induct) (auto split: option.splits if_splits)

lemma ParseMAC_length: "ParseMAC s = Inr m \<Longrightarrow> length m = 6"
  by (auto simp: ParseMAC_def Let_def split: if_splits dest: mac_octets_length)

interpretation mac: codec "\<lambda>m. length m = 6" MAC_String
  "\<lambda>s. case ParseMAC s of Inr m \<Rightarrow> Some m | Inl _ \<Rightarrow> None"
  by unfold_locales (simp add: ParseMAC_String)

end
