(* ===== verification/Device_Class.thy ===== *)
theory Device_Class
  imports Pigsy_Prelude
begin

section \<open>protocol/device_class.go: the device class table\<close>

text \<open>
  A device class is a Go \<open>int\<close>: the canonical type times 1000 plus the canonical subtype,
  where the canonical values are twice the bytes on the wire. The constants and the name
  table are association lists in the order of the source, the alias table too; the lookup
  tries the canonical key, its alias, then the undoubled key and its alias. Nothing here
  can overflow: the largest key computed is 510510.
\<close>

type_synonym DeviceClass = int

definition DeviceClassUnknown :: DeviceClass where
  "DeviceClassUnknown = 0"

definition deviceClassConsts :: "(string \<times> DeviceClass) list" where
  "deviceClassConsts = [
    (''SGBX0'', 106), (''BRIDGE_G2'', 2004), (''POL'', 2014), (''BRIDGE'', 2022), (''SGB'', 2028),
    (''ACF_DUCTED'', 2102), (''SPO3'', 4016), (''ACF_VRV'', 4102), (''SGBX'', 4104),
    (''SGBX2'', 4106), (''VFAN_ONLY'', 10030), (''FAN_ONLY'', 12030), (''BFAN_ONLY'', 14096),
    (''ZCL'', 16108), (''FAN_ONLY9'', 18030), (''DRC'', 20004), (''BSC'', 22004), (''GDC1'', 24002),
    (''GDC1_SW'', 24004), (''GDC1_SL'', 24006), (''GDC1_W'', 24016), (''GDC2'', 24034),
    (''GDC1_M2'', 26002), (''GDC1_M2W'', 26004), (''GDC1_M2L'', 26006), (''DV02'', 34048),
    (''RFD'', 40026), (''RFD2_SCAN'', 40104), (''TSWITCH'', 42024), (''TSWITCHG2'', 42026),
    (''ECL_AC'', 42096), (''SWITCH'', 44002), (''SWITCH_G2'', 44024), (''SWITCH_G3'', 44026),
    (''DIMMER'', 46022), (''DIMMER_G2'', 46024), (''DIMMER_G3'', 46026), (''STRIP_W'', 48004),
    (''FCS'', 48006), (''SFI_8266'', 48064), (''SFI_825X'', 48066), (''DM10'', 48096),
    (''DALI_DT6'', 48098), (''RCT_W'', 48100), (''RFD2'', 48104), (''STRIP2_CCT'', 50008),
    (''RFD_CT'', 50026), (''RCT_CCT'', 50100), (''RFD2_CT'', 50104), (''STRIP2_RGBCCT'', 52008),
    (''RCT_RGBW'', 52100), (''STRIP_RGB'', 54004), (''FCR'', 54006), (''STRIP2_RGB'', 54008),
    (''RCT_RGB'', 54100), (''RGB_X'', 54198), (''RCT_RGBCCT'', 56100), (''IR36'', 60002),
    (''IR12'', 60004), (''SMR'', 60006), (''DRS'', 60020), (''DRSM2'', 60022), (''DRSM3'', 60024),
    (''CAP'', 102002), (''MTW'', 102004), (''STC'', 102006), (''MTW2_AL'', 102008),
    (''MTW2_AN'', 102010), (''MRC'', 102012), (''CAP3'', 102014), (''SGB3'', 102016),
    (''SIC'', 102020), (''DIAL'', 102040), (''VFAN_CT'', 106030), (''FAN_CT'', 108030),
    (''FAN_CT9'', 114030), (''SONOS'', 180002), (''ACF_RS8'', 10000114)]"

definition ACF_RS8 :: DeviceClass where
  "ACF_RS8 = 10000114"

definition deviceClassNames :: "(DeviceClass \<times> string) list" where
  "deviceClassNames = [
    (106, ''SGBX0''), (2004, ''BRIDGE_G2''), (2014, ''POL''), (2022, ''BRIDGE''), (2028, ''SGB''),
    (2102, ''ACF_DUCTED''), (4016, ''SPO3''), (4102, ''ACF_VRV''), (4104, ''SGBX''),
    (4106, ''SGBX2''), (10030, ''VFAN_ONLY''), (12030, ''FAN_ONLY''), (14096, ''BFAN_ONLY''),
    (16108, ''ZCL''), (18030, ''FAN_ONLY9''), (20004, ''DRC''), (22004, ''BSC''), (24002, ''GDC1''),
    (24004, ''GDC1_SW''), (24006, ''GDC1_SL''), (24016, ''GDC1_W''), (24034, ''GDC2''),
    (26002, ''GDC1_M2''), (26004, ''GDC1_M2W''), (26006, ''GDC1_M2L''), (34048, ''DV02''),
    (40026, ''RFD''), (40104, ''RFD2_SCAN''), (42024, ''TSWITCH''), (42026, ''TSWITCHG2''),
    (42096, ''ECL_AC''), (44002, ''SWITCH''), (44024, ''SWITCH_G2''), (44026, ''SWITCH_G3''),
    (46022, ''DIMMER''), (46024, ''DIMMER_G2''), (46026, ''DIMMER_G3''), (48004, ''STRIP_W''),
    (48006, ''FCS''), (48064, ''SFI_8266''), (48066, ''SFI_825X''), (48096, ''DM10''),
    (48098, ''DALI_DT6''), (48100, ''RCT_W''), (48104, ''RFD2''), (50008, ''STRIP2_CCT''),
    (50026, ''RFD_CT''), (50100, ''RCT_CCT''), (50104, ''RFD2_CT''), (52008, ''STRIP2_RGBCCT''),
    (52100, ''RCT_RGBW''), (54004, ''STRIP_RGB''), (54006, ''FCR''), (54008, ''STRIP2_RGB''),
    (54100, ''RCT_RGB''), (54198, ''RGB_X''), (56100, ''RCT_RGBCCT''), (60002, ''IR36''),
    (60004, ''IR12''), (60006, ''SMR''), (60020, ''DRS''), (60022, ''DRSM2''), (60024, ''DRSM3''),
    (102002, ''CAP''), (102004, ''MTW''), (102006, ''STC''), (102008, ''MTW2_AL''),
    (102010, ''MTW2_AN''), (102012, ''MRC''), (102014, ''CAP3''), (102016, ''SGB3''),
    (102020, ''SIC''), (102040, ''DIAL''), (106030, ''VFAN_CT''), (108030, ''FAN_CT''),
    (114030, ''FAN_CT9''), (180002, ''SONOS''), (10000114, ''ACF_RS8'')]"

definition deviceClassAliases :: "(DeviceClass \<times> DeviceClass) list" where
  "deviceClassAliases = [(44022, 44002)]"

definition DeviceClassLookup :: "byte \<Rightarrow> byte \<Rightarrow> DeviceClass" where
  "DeviceClassLookup wireType wireStype =
     (if wireStype = 0x39 then ACF_RS8
      else
        let canonical = uint wireType * 2 * 1000 + uint wireStype * 2;
            raw = uint wireType * 1000 + uint wireStype
        in case map_of deviceClassNames canonical of
             Some _ \<Rightarrow> canonical
           | None \<Rightarrow>
               (case map_of deviceClassAliases canonical of
                  Some alias \<Rightarrow> alias
                | None \<Rightarrow>
                    (case map_of deviceClassNames raw of
                       Some _ \<Rightarrow> raw
                     | None \<Rightarrow>
                         (case map_of deviceClassAliases raw of
                            Some alias \<Rightarrow> alias
                          | None \<Rightarrow> DeviceClassUnknown))))"

text \<open>Reading a key that a Go map does not hold gives the empty string.\<close>

definition ClassName :: "DeviceClass \<Rightarrow> string" where
  "ClassName c = (case map_of deviceClassNames c of Some n \<Rightarrow> n | None \<Rightarrow> [])"

definition DeviceClassName :: "byte \<Rightarrow> byte \<Rightarrow> string" where
  "DeviceClassName wireType wireStype = ClassName (DeviceClassLookup wireType wireStype)"

subsection \<open>The tables\<close>

lemma names_of_consts: "deviceClassNames = map (\<lambda>(n, c). (c, n)) deviceClassConsts"
  by (simp add: deviceClassNames_def deviceClassConsts_def)

lemma distinct_names: "distinct (map fst deviceClassNames)"
  by (simp add: deviceClassNames_def)

lemma names_not_empty: "\<forall>p \<in> set deviceClassNames. snd p \<noteq> [] \<and> fst p \<noteq> DeviceClassUnknown"
  by (simp add: deviceClassNames_def DeviceClassUnknown_def)

lemma alias_named: "map_of deviceClassAliases k = Some c \<Longrightarrow> map_of deviceClassNames c \<noteq> None"
  by (simp add: deviceClassAliases_def deviceClassNames_def split: if_splits)

lemma ACF_RS8_named: "map_of deviceClassNames ACF_RS8 = Some ''ACF_RS8''"
  by (simp add: ACF_RS8_def deviceClassNames_def)

lemma Unknown_unnamed: "map_of deviceClassNames DeviceClassUnknown = None"
  by (simp add: DeviceClassUnknown_def deviceClassNames_def)

lemma ClassName_empty: "ClassName c = [] \<longleftrightarrow> map_of deviceClassNames c = None"
proof (cases "map_of deviceClassNames c")
  case None
  then show ?thesis by (simp add: ClassName_def)
next
  case (Some n)
  then have "(c, n) \<in> set deviceClassNames" by (rule map_of_SomeD)
  with names_not_empty have "n \<noteq> []" by force
  with Some show ?thesis by (simp add: ClassName_def)
qed

subsection \<open>The lookup\<close>

lemma DeviceClassLookup_known:
  "DeviceClassLookup t s = DeviceClassUnknown \<or> map_of deviceClassNames (DeviceClassLookup t s) \<noteq> None"
  unfolding DeviceClassLookup_def Let_def
  using alias_named ACF_RS8_named by (auto split: option.splits)

text \<open>Every key but the synthetic one splits into two even halves that fit a wire byte each.\<close>

lemma keys_from_wire:
  "\<forall>c \<in> set (map fst deviceClassNames). c \<noteq> 10000114 \<longrightarrow>
     uint (word_of_int (c div 2000) :: byte) * 2 * 1000 +
       uint (word_of_int (c mod 1000 div 2) :: byte) * 2 = c \<and>
     (word_of_int (c mod 1000 div 2) :: byte) \<noteq> 0x39"
  by (simp add: deviceClassNames_def)

lemma DeviceClassLookup_canonical:
  assumes "map_of deviceClassNames c = Some n" "c \<noteq> ACF_RS8"
  shows "DeviceClassLookup (word_of_int (c div 2000)) (word_of_int (c mod 1000 div 2)) = c"
proof -
  have "c \<in> set (map fst deviceClassNames)" using map_of_SomeD [OF assms(1)] by force
  from mp [OF bspec [OF keys_from_wire this] assms(2) [unfolded ACF_RS8_def]]
  have key: "uint (word_of_int (c div 2000) :: byte) * 2 * 1000 +
       uint (word_of_int (c mod 1000 div 2) :: byte) * 2 = c"
    and short: "(word_of_int (c mod 1000 div 2) :: byte) \<noteq> 0x39"
    by (rule conjunct1, rule conjunct2)
  show ?thesis
    unfolding DeviceClassLookup_def Let_def key assms(1) by (simp only: short if_False option.case)
qed

end
