(* ===== verification/Protocol_Const.thy ===== *)
theory Protocol_Const
  imports Pigsy_Prelude
begin

section \<open>protocol/const.go: opcodes, vendor identifiers and well-known values\<close>

text \<open>
  The constants of the wire protocol, each at the type the code uses it with: opcodes and
  LED bytes as bytes, vendor identifiers as 16-bit words, UUIDs as strings (suffixed, as the \<open>ble\<close>
  package has byte arrays of the same names). Their defining equations are in the
  collection \<open>go_const\<close>.
\<close>

definition MeshServiceUUID_str :: string where
  "MeshServiceUUID_str = ''00010203-0405-0607-0809-0a0b0c0d1910''"

definition CharNotifyUUID_str :: string where
  "CharNotifyUUID_str = ''00010203-0405-0607-0809-0a0b0c0d1911''"

definition CharCmdUUID_str :: string where
  "CharCmdUUID_str = ''00010203-0405-0607-0809-0a0b0c0d1912''"

definition CharOTAUUID_str :: string where
  "CharOTAUUID_str = ''00010203-0405-0607-0809-0a0b0c0d1913''"

definition CharPairUUID_str :: string where
  "CharPairUUID_str = ''00010203-0405-0607-0809-0a0b0c0d1914''"

definition DISServiceUUID_str :: string where
  "DISServiceUUID_str = ''0000180a-0000-1000-8000-00805f9b34fb''"

definition DISModelNumberUUID_str :: string where
  "DISModelNumberUUID_str = ''00002a24-0000-1000-8000-00805f9b34fb''"

definition DISFirmwareRevUUID_str :: string where
  "DISFirmwareRevUUID_str = ''00002a26-0000-1000-8000-00805f9b34fb''"

definition DISHardwareRevUUID_str :: string where
  "DISHardwareRevUUID_str = ''00002a27-0000-1000-8000-00805f9b34fb''"

definition DISManufacturerUUID_str :: string where
  "DISManufacturerUUID_str = ''00002a29-0000-1000-8000-00805f9b34fb''"

lemmas uuid_strings = MeshServiceUUID_str_def CharNotifyUUID_str_def CharCmdUUID_str_def CharOTAUUID_str_def
  CharPairUUID_str_def DISServiceUUID_str_def DISModelNumberUUID_str_def DISFirmwareRevUUID_str_def
  DISHardwareRevUUID_str_def DISManufacturerUUID_str_def

definition ManufacturerID :: u16 where
  [go_const]: "ManufacturerID = 0x0211"

definition VendorSkytone :: u16 where
  [go_const]: "VendorSkytone = 0x6969"

definition VendorSkytoneAlt :: u16 where
  [go_const]: "VendorSkytoneAlt = 0x0211"

definition VendorLEDQuery :: u16 where
  [go_const]: "VendorLEDQuery = 0x696B"

definition OpTypeClient :: byte where
  [go_const]: "OpTypeClient = 3"

definition OpOnOff :: byte where
  [go_const]: "OpOnOff = 0xED"

definition OpGroupOnOff :: byte where
  [go_const]: "OpGroupOnOff = 0xE7"

definition OpStatusQuery :: byte where
  [go_const]: "OpStatusQuery = 0xC5"

definition OpStatusPoll :: byte where
  [go_const]: "OpStatusPoll = 0xDA"

definition OpSetGroup :: byte where
  [go_const]: "OpSetGroup = 0xEF"

definition OpQueryGroup :: byte where
  [go_const]: "OpQueryGroup = 0xD7"

definition OpProbeGroup :: byte where
  [go_const]: "OpProbeGroup = 0xDD"

definition OpLEDSet :: byte where
  [go_const]: "OpLEDSet = 0xFF"

definition OpLEDQuery :: byte where
  [go_const]: "OpLEDQuery = 0xD9"

definition OpFindMe :: byte where
  [go_const]: "OpFindMe = 0xF5"

definition OpWriteAlarm :: byte where
  [go_const]: "OpWriteAlarm = 0xCC"

definition OpQueryAlarm :: byte where
  [go_const]: "OpQueryAlarm = 0xCD"

definition OpDeleteAlarm :: byte where
  [go_const]: "OpDeleteAlarm = 0xCE"

definition OpSlotQuery :: byte where
  [go_const]: "OpSlotQuery = 0xF0"

definition OpSunriseSunset :: byte where
  [go_const]: "OpSunriseSunset = 0xD0"

definition OpNotifyStatusPoll :: byte where
  [go_const]: "OpNotifyStatusPoll = 0xDB"

definition OpNotifyStatusBroadcast :: byte where
  [go_const]: "OpNotifyStatusBroadcast = 0xDC"

definition OpNotifyGroupResponse :: byte where
  [go_const]: "OpNotifyGroupResponse = 0xD4"

definition OpNotifyGroupAck :: byte where
  [go_const]: "OpNotifyGroupAck = 0xEE"

definition OpNotifyLEDOrSlot :: byte where
  [go_const]: "OpNotifyLEDOrSlot = 0xD3"

definition OpNotifyAlarmFragment :: byte where
  [go_const]: "OpNotifyAlarmFragment = 0xC2"

definition LEDChBlueSelect :: byte where
  [go_const]: "LEDChBlueSelect = 0xA0"

definition LEDChOrangeSelect :: byte where
  [go_const]: "LEDChOrangeSelect = 0xFF"

definition LEDChOrangeInternal :: byte where
  [go_const]: "LEDChOrangeInternal = 0xB6"

definition LEDBlueOnLevel :: byte where
  [go_const]: "LEDBlueOnLevel = 0x12"

definition FindMeModeBlink :: byte where
  [go_const]: "FindMeModeBlink = 0x03"

definition FindMeDuration :: byte where
  [go_const]: "FindMeDuration = 0x0F"

definition ScheduleSlotCount :: int where
  [go_const]: "ScheduleSlotCount = 250"

definition ScheduleSlotEnd :: byte where
  [go_const]: "ScheduleSlotEnd = 0xFF"

text \<open>Every opcode has its two top bits set, which is what the op type 3 of a client writes there.\<close>

definition opcodes :: "byte list" where
  "opcodes = [OpOnOff, OpGroupOnOff, OpStatusQuery, OpStatusPoll, OpSetGroup, OpQueryGroup,
     OpProbeGroup, OpLEDSet, OpLEDQuery, OpFindMe, OpWriteAlarm, OpQueryAlarm, OpDeleteAlarm,
     OpSlotQuery, OpSunriseSunset]"

end
