(* ===== verification/Command.thy ===== *)
theory Command
  imports Protocol_Const Byteutil
begin

section \<open>command: plaintext command payloads\<close>

text \<open>
  The record \<open>Command\<close>, its serialisation \<open>Encode\<close> and the builders of \<open>command/*.go\<close>.
  \<open>Encode\<close> panics (\<open>None\<close>) when \<open>PlaintextLen\<close> leaves no room for the five header bytes:
  a negative size panics in \<open>make\<close>, a smaller one in an index or slice expression.
\<close>

record Command =
  Destination :: u16
  Opcode :: byte
  Vendor :: u16
  Data :: "byte list"
  PlaintextLen :: int

definition Encode :: "Command \<Rightarrow> byte list option" where
  "Encode c =
     (if PlaintextLen c < 5 then None
      else
        let buf = replicate (nat (PlaintextLen c)) 0;
            buf = buf[0 := lo8 (Destination c), 1 := hi8 (Destination c)];
            buf = buf[2 := push_bit 6 OpTypeClient OR (Opcode c AND 0x3F)];
            buf = buf[3 := lo8 (Vendor c), 4 := hi8 (Vendor c)]
        in Some (go_copy_at 5 buf (Data c)))"

subsection \<open>control.go\<close>

definition OnOff :: "u16 \<Rightarrow> bool \<Rightarrow> Command" where
  "OnOff dst on =
     \<lparr>Destination = dst, Opcode = OpOnOff, Vendor = VendorSkytone,
      Data = [if on then 0x01 else 0x00], PlaintextLen = 15\<rparr>"

definition GroupOnOff :: "u16 \<Rightarrow> bool \<Rightarrow> Command" where
  "GroupOnOff grp on =
     \<lparr>Destination = grp, Opcode = OpGroupOnOff, Vendor = VendorSkytone,
      Data = [if on then 0x0E else 0x0D, 0x00, 0x10, 0x00, 0x00, 0x00, lo8 grp, hi8 grp],
      PlaintextLen = 15\<rparr>"

subsection \<open>group.go\<close>

definition SetGroupMembership :: "u16 \<Rightarrow> byte list \<Rightarrow> byte \<Rightarrow> Command" where
  "SetGroupMembership dst groupLowBytes gwMAC5 =
     (let data = replicate (2 + length groupLowBytes) 0;
          data = data[0 := word_of_nat (length groupLowBytes)];
          data = data[1 := gwMAC5]
      in \<lparr>Destination = dst, Opcode = OpSetGroup, Vendor = VendorSkytone,
          Data = go_copy_at 2 data groupLowBytes, PlaintextLen = 15\<rparr>)"

definition QueryGroupMembership :: "u16 \<Rightarrow> Command" where
  "QueryGroupMembership dst =
     \<lparr>Destination = dst, Opcode = OpQueryGroup, Vendor = VendorSkytoneAlt,
      Data = [0x00, 0x00, 0x00], PlaintextLen = 10\<rparr>"

definition ProbeGroup :: "u16 \<Rightarrow> Command" where
  "ProbeGroup groupAddr =
     \<lparr>Destination = groupAddr, Opcode = OpProbeGroup, Vendor = VendorSkytoneAlt,
      Data = [0x0A, 0x01], PlaintextLen = 10\<rparr>"

subsection \<open>led.go\<close>

definition LEDSetBlue :: "u16 \<Rightarrow> bool \<Rightarrow> Command" where
  "LEDSetBlue dst on =
     \<lparr>Destination = dst, Opcode = OpLEDSet, Vendor = VendorSkytone,
      Data = [LEDChBlueSelect, if on then LEDBlueOnLevel else 0, 0x00, 0x00],
      PlaintextLen = 15\<rparr>"

definition LEDSetOrange :: "u16 \<Rightarrow> byte \<Rightarrow> Command" where
  "LEDSetOrange dst level =
     \<lparr>Destination = dst, Opcode = OpLEDSet, Vendor = VendorSkytone,
      Data = [0x00, 0x00, LEDChOrangeSelect, level AND 0x0F], PlaintextLen = 15\<rparr>"

definition LEDSetPurple :: "u16 \<Rightarrow> byte \<Rightarrow> Command" where
  "LEDSetPurple dst orangeLevel =
     \<lparr>Destination = dst, Opcode = OpLEDSet, Vendor = VendorSkytone,
      Data = [LEDChBlueSelect, LEDBlueOnLevel, LEDChOrangeSelect, orangeLevel AND 0x0F],
      PlaintextLen = 15\<rparr>"

definition LEDQuery :: "u16 \<Rightarrow> byte \<Rightarrow> Command" where
  "LEDQuery dst gwMAC5 =
     \<lparr>Destination = dst, Opcode = OpLEDQuery, Vendor = VendorLEDQuery,
      Data = [gwMAC5, 0x00], PlaintextLen = 15\<rparr>"

definition FindMe :: "u16 \<Rightarrow> bool \<Rightarrow> Command" where
  "FindMe dst start =
     \<lparr>Destination = dst, Opcode = OpFindMe, Vendor = VendorSkytone,
      Data = (if start then [FindMeModeBlink, FindMeDuration] else [0x00, 0x00]),
      PlaintextLen = 15\<rparr>"

subsection \<open>status.go\<close>

definition withDst :: "Command \<Rightarrow> u16 \<Rightarrow> Command" where
  "withDst c dst = c\<lparr>Destination := dst\<rparr>"

definition StatusQuery :: Command where
  "StatusQuery = withDst
     \<lparr>Destination = ucast OpTypeClient, Opcode = OpStatusQuery, Vendor = VendorSkytone,
      Data = [0x00, 0x00, 0xD7, 0x69, 0x00], PlaintextLen = 10\<rparr> 0xFFFF"

definition StatusPoll :: "u16 \<Rightarrow> Command" where
  "StatusPoll dst =
     \<lparr>Destination = dst, Opcode = OpStatusPoll, Vendor = VendorSkytoneAlt,
      Data = [0x10, 0x00], PlaintextLen = 7\<rparr>"

text \<open>The argument is the time's \<open>Unix()\<close> value, an \<open>int64\<close>; the conversion keeps 32 bits.\<close>

definition SetUTC :: "64 word \<Rightarrow> Command" where
  "SetUTC now =
     (let secs = (ucast now :: u32);
          data = (replicate 5 0)[0 := ucast secs, 1 := ucast (drop_bit 8 secs),
                    2 := ucast (drop_bit 16 secs), 3 := ucast (drop_bit 24 secs)]
      in \<lparr>Destination = 0xFFFF, Opcode = OpStatusQuery, Vendor = VendorSkytone,
          Data = data, PlaintextLen = 15\<rparr>)"

subsection \<open>schedule.go\<close>

definition ScheduleCoordinator :: u16 where
  [go_const]: "ScheduleCoordinator = 0x0030"

definition WriteAlarm :: "byte list \<Rightarrow> Command \<times> Command" where
  "WriteAlarm record16 =
     (let xr = xor_loop 0 record16
      in (\<lparr>Destination = ScheduleCoordinator, Opcode = OpWriteAlarm, Vendor = VendorSkytone,
           Data = [0x00] @ take 9 record16, PlaintextLen = 15\<rparr>,
          \<lparr>Destination = ScheduleCoordinator, Opcode = OpWriteAlarm, Vendor = VendorSkytone,
           Data = [0x01] @ (drop 9 record16 @ [xr]), PlaintextLen = 15\<rparr>))"

definition QueryAlarm :: "byte \<Rightarrow> byte \<Rightarrow> u16 \<Rightarrow> Command" where
  "QueryAlarm startSlot gwMAC5 target =
     \<lparr>Destination = ScheduleCoordinator, Opcode = OpQueryAlarm, Vendor = VendorSkytone,
      Data = [startSlot, gwMAC5, 0x00, lo8 target, hi8 target], PlaintextLen = 15\<rparr>"

definition DeleteAlarm :: "byte \<Rightarrow> byte \<Rightarrow> Command" where
  "DeleteAlarm slot gwMAC5 =
     \<lparr>Destination = ScheduleCoordinator, Opcode = OpDeleteAlarm, Vendor = VendorSkytone,
      Data = [slot, gwMAC5, 0x00], PlaintextLen = 15\<rparr>"

definition SlotQuery :: "byte \<Rightarrow> Command" where
  "SlotQuery gwMAC5 =
     \<lparr>Destination = ScheduleCoordinator, Opcode = OpSlotQuery, Vendor = VendorSkytone,
      Data = [gwMAC5, 0x00], PlaintextLen = 15\<rparr>"

subsection \<open>sunrise.go\<close>

text \<open>The array \<open>[3][8]byte\<close> is a triple of lists of length 8; so is the result.\<close>

definition sunrise_frame :: "u16 \<Rightarrow> nat \<Rightarrow> byte list \<Rightarrow> Command" where
  "sunrise_frame dst i f =
     (let data = (replicate (1 + length f) 0)[0 := word_of_nat i]
      in \<lparr>Destination = dst, Opcode = OpSunriseSunset, Vendor = VendorSkytone,
          Data = go_copy_at 1 data f, PlaintextLen = 15\<rparr>)"

definition SunriseSunset ::
    "u16 \<Rightarrow> byte list \<times> byte list \<times> byte list \<Rightarrow> Command \<times> Command \<times> Command" where
  "SunriseSunset dst fragments =
     (case fragments of (f0, f1, f2) \<Rightarrow>
        let xr = xor_loop (xor_loop (xor_loop 0 f0) f1) f2;
            c2 = sunrise_frame dst 2 f2
        in (sunrise_frame dst 0 f0, sunrise_frame dst 1 f1, c2\<lparr>Data := Data c2 @ [xr]\<rparr>))"

subsection \<open>The layout of an encoded command\<close>

lemma Encode_panics_iff: "Encode c = None \<longleftrightarrow> PlaintextLen c < 5"
  by (simp add: Encode_def Let_def)

definition wire_header :: "Command \<Rightarrow> byte list" where
  "wire_header c =
     [lo8 (Destination c), hi8 (Destination c),
      push_bit 6 OpTypeClient OR (Opcode c AND 0x3F),
      lo8 (Vendor c), hi8 (Vendor c)]"

lemma length_wire_header [simp]: "length (wire_header c) = 5"
  by (simp add: wire_header_def)

lemma Encode_layout:
  assumes "5 \<le> PlaintextLen c"
  shows "Encode c =
           Some (wire_header c @ go_copy (replicate (nat (PlaintextLen c) - 5) 0) (Data c))"
proof -
  obtain n where n: "nat (PlaintextLen c) = 5 + n"
    using assms by (metis le_add_diff_inverse nat_int_comparison(3) of_nat_numeral
        int_nat_eq nat_le_iff nat_numeral zle_int nat_mono)
  have "\<not> PlaintextLen c < 5" using assms by simp
  then show ?thesis
    unfolding Encode_def Let_def n wire_header_def
    by (simp add: numeral_eq_Suc go_copy_at_def)
qed

lemma Encode_fits:
  assumes "5 + int (length (Data c)) \<le> PlaintextLen c"
  shows "Encode c = Some (wire_header c @ Data c @
           replicate (nat (PlaintextLen c) - 5 - length (Data c)) 0)"
proof -
  have "5 \<le> PlaintextLen c" "length (Data c) \<le> nat (PlaintextLen c) - 5" using assms by auto
  then show ?thesis by (simp add: Encode_layout go_copy_short)
qed

text \<open>The header as a receiver reads it.\<close>

lemma wire_opcode_top: "op AND 0xC0 = 0xC0 \<Longrightarrow> push_bit 6 OpTypeClient OR (op AND 0x3F) = op"
proof -
  assume top: "op AND 0xC0 = 0xC0"
  have "op AND (0xC0 OR 0x3F) = (op AND 0xC0) OR (op AND 0x3F)" by (rule bit.conj_disj_distrib)
  moreover have ones: "(0xC0 OR 0x3F :: byte) = - 1" by simp
  ultimately have "op = (op AND 0xC0) OR (op AND 0x3F)" unfolding ones by (simp only: and.right_neutral)
  with top show ?thesis by (simp add: OpTypeClient_def)
qed

subsection \<open>What the builders build\<close>

text \<open>
  The commands the builders return, as a set closed under nothing else; the group list of
  \<open>SetGroupMembership\<close> is limited to the eight groups that fit its fifteen bytes.
\<close>

inductive built :: "Command \<Rightarrow> bool" where
  "built (OnOff dst on)"
| "built (GroupOnOff dst on)"
| "length gs \<le> 8 \<Longrightarrow> built (SetGroupMembership dst gs gw)"
| "built (QueryGroupMembership dst)"
| "built (ProbeGroup dst)"
| "built (LEDSetBlue dst on)"
| "built (LEDSetOrange dst lvl)"
| "built (LEDSetPurple dst lvl)"
| "built (LEDQuery dst gw)"
| "built (FindMe dst on)"
| "built StatusQuery"
| "built (StatusPoll dst)"
| "built (SetUTC now)"
| "length rec = 16 \<Longrightarrow> c \<in> {fst (WriteAlarm rec), snd (WriteAlarm rec)} \<Longrightarrow> built c"
| "built (QueryAlarm slot gw target)"
| "built (DeleteAlarm slot gw)"
| "built (SlotQuery gw)"
| "length f0 = 8 \<Longrightarrow> length f1 = 8 \<Longrightarrow> length f2 = 8 \<Longrightarrow>
     SunriseSunset dst (f0, f1, f2) = (c0, c1, c2) \<Longrightarrow> c \<in> {c0, c1, c2} \<Longrightarrow> built c"

lemmas builder_defs = OnOff_def GroupOnOff_def SetGroupMembership_def QueryGroupMembership_def
  ProbeGroup_def LEDSetBlue_def LEDSetOrange_def LEDSetPurple_def LEDQuery_def FindMe_def
  withDst_def StatusQuery_def StatusPoll_def SetUTC_def WriteAlarm_def QueryAlarm_def
  DeleteAlarm_def SlotQuery_def sunrise_frame_def SunriseSunset_def

lemma built_fits:
  assumes "built c"
  shows "5 + int (length (Data c)) \<le> PlaintextLen c"
  using assms by (induction rule: built.induct) (auto simp: builder_defs Let_def)

lemma built_opcode:
  assumes "built c"
  shows "Opcode c \<in> set opcodes"
  using assms
  by (induction rule: built.induct) (auto simp: builder_defs Let_def opcodes_def)

lemma opcodes_top: "op \<in> set opcodes \<Longrightarrow> op AND 0xC0 = 0xC0"
  by (auto simp: opcodes_def go_const)

lemma built_PlaintextLen: "built c \<Longrightarrow> PlaintextLen c \<in> {7, 10, 15}"
  by (induction rule: built.induct) (auto simp: builder_defs Let_def)

text \<open>The node's reading of a plaintext: destination, opcode byte, vendor, the rest.\<close>

fun read_plaintext :: "byte list \<Rightarrow> (u16 \<times> byte \<times> u16 \<times> byte list) option" where
  "read_plaintext (d0 # d1 # op # v0 # v1 # rest) = Some (le16_of d0 d1, op, le16_of v0 v1, rest)"
| "read_plaintext _ = None"

lemma built_Encode:
  assumes "built c"
  shows "Encode c = Some ([lo8 (Destination c), hi8 (Destination c), Opcode c,
           lo8 (Vendor c), hi8 (Vendor c)] @ Data c @
           replicate (nat (PlaintextLen c) - 5 - length (Data c)) 0)"
  using Encode_fits [OF built_fits [OF assms]] wire_opcode_top [OF opcodes_top [OF built_opcode [OF assms]]]
  by (simp add: wire_header_def)

subsection \<open>Fragments and checksums\<close>

lemma WriteAlarm_Data:
  assumes "WriteAlarm r = (f0, f1)"
  shows "Data f0 = 0x00 # take 9 r" "Data f1 = 0x01 # drop 9 r @ [XORFold r]"
  using assms by (auto simp: WriteAlarm_def Let_def XORFold_def)

lemma xor_loop_XORFold: "xor_loop x b = x XOR XORFold b"
  unfolding XORFold_def by (rule xor_loop_acc)

lemma sunrise_frame_Data: "length f = 8 \<Longrightarrow> Data (sunrise_frame dst i f) = word_of_nat i # f"
  by (simp add: sunrise_frame_def Let_def go_copy_at_def go_copy_full numeral_eq_Suc)

lemma SetGroupMembership_Data:
  "Data (SetGroupMembership dst gs gw) = word_of_nat (length gs) # gw # gs"
  by (simp add: SetGroupMembership_def Let_def go_copy_at_def go_copy_full numeral_2_eq_2)

text \<open>The three frames of a sunrise table carry their index and fragment, and the last one the XOR of all.\<close>

lemma sunrise_frames:
  assumes "length f0 = 8" "length f1 = 8" "length f2 = 8"
    and "SunriseSunset dst (f0, f1, f2) = (c0, c1, c2)"
  shows "Data c0 = 0 # f0 \<and> Data c1 = 1 # f1 \<and> Data c2 = 2 # f2 @ [XORFold (f0 @ f1 @ f2)] \<and>
     (\<forall>c \<in> {c0, c1, c2}. Destination c = dst \<and> Opcode c = OpSunriseSunset \<and> (\<exists>b. Encode c = Some b \<and> length b = 15))"
proof -
  have d: "Data c0 = 0 # f0" "Data c1 = 1 # f1" "Data c2 = 2 # f2 @ [XORFold (f0 @ f1 @ f2)]"
    using assms by (auto simp: SunriseSunset_def Let_def sunrise_frame_Data xor_loop_XORFold xor.assoc)
  have c: "Destination c = dst \<and> Opcode c = OpSunriseSunset \<and> PlaintextLen c = 15 \<and> built c"
    if "c \<in> {c0, c1, c2}" for c
    using that assms built.intros(18) [OF assms that]
    by (auto simp: SunriseSunset_def sunrise_frame_def Let_def)
  have "\<exists>b. Encode c = Some b \<and> length b = 15" if "c \<in> {c0, c1, c2}" for c
    using c [OF that] built_Encode [of c] built_fits [of c] by auto
  with c d show ?thesis by blast
qed

text \<open>More groups than fit: the count byte announces all, the list is cut to eight.\<close>

lemma SetGroupMembership_truncates:
  assumes "8 < length gs"
  shows "Encode (SetGroupMembership dst gs gw) =
     Some ([lo8 dst, hi8 dst, OpSetGroup, lo8 VendorSkytone, hi8 VendorSkytone,
       word_of_nat (length gs), gw] @ take 8 gs)"
proof -
  let ?c = "SetGroupMembership dst gs gw"
  have len: "PlaintextLen ?c = 15" "Opcode ?c = OpSetGroup" "Vendor ?c = VendorSkytone" "Destination ?c = dst"
    by (simp_all add: SetGroupMembership_def Let_def)
  have op: "push_bit 6 OpTypeClient OR (OpSetGroup AND 0x3F) = OpSetGroup"
    by (rule wire_opcode_top [OF opcodes_top]) (simp add: opcodes_def)
  have "take 10 (Data ?c) = word_of_nat (length gs) # gw # take 8 gs"
    by (simp add: SetGroupMembership_Data numeral_eq_Suc)
  moreover have "10 \<le> length (Data ?c)" using assms by (simp add: SetGroupMembership_Data)
  ultimately have "go_copy (replicate 10 0) (Data ?c) = word_of_nat (length gs) # gw # take 8 gs"
    by (simp add: go_copy_def)
  then show ?thesis using Encode_layout [of ?c] by (simp add: len op wire_header_def)
qed

end
