(* ===== verification/Alarm.thy ===== *)
theory Alarm
  imports Address_MAC Byteutil
begin

section \<open>schedule/alarm.go: alarm records\<close>

text \<open>
  The 16-byte alarm record, its accessors, the toggle of its active byte, and the three
  constructors with their checks. A record is a list of 16 bytes; \<open>var r Record\<close> is the
  list of 16 zeros, written at each offset as the code writes it.
\<close>

type_synonym AlarmRecord = "byte list"
type_synonym Kind = byte
type_synonym Action = byte

definition KindRegular :: Kind where [go_const]: "KindRegular = 0x00"
definition KindFlick :: Kind where [go_const]: "KindFlick = 0x01"
definition KindGradual :: Kind where [go_const]: "KindGradual = 0x02"
definition KindCountdown :: Kind where [go_const]: "KindCountdown = 0x03"

definition ActionOff :: Action where [go_const]: "ActionOff = 0x00"
definition ActionOnFullBright :: Action where [go_const]: "ActionOnFullBright = 0x64"
definition ActionOnUnchanged :: Action where [go_const]: "ActionOnUnchanged = 0xFF"

definition Monday :: byte where [go_const]: "Monday = 0x01"
definition Tuesday :: byte where [go_const]: "Tuesday = 0x02"
definition Wednesday :: byte where [go_const]: "Wednesday = 0x04"
definition Thursday :: byte where [go_const]: "Thursday = 0x08"
definition Friday :: byte where [go_const]: "Friday = 0x10"
definition Saturday :: byte where [go_const]: "Saturday = 0x20"
definition Sunday :: byte where [go_const]: "Sunday = 0x40"
definition Daily :: byte where [go_const]: "Daily = 0x7F"
definition Weekdays :: byte where
  [go_const]: "Weekdays = Monday OR Tuesday OR Wednesday OR Thursday OR Friday"
definition Weekends :: byte where [go_const]: "Weekends = Saturday OR Sunday"

definition CountdownID :: byte where [go_const]: "CountdownID = 0xC9"
definition NoWeekdays :: byte where [go_const]: "NoWeekdays = 0x00"

subsection \<open>Accessors\<close>

definition Record_ID :: "AlarmRecord \<Rightarrow> byte" where "Record_ID r = r ! 0"
definition Record_Repeat :: "AlarmRecord \<Rightarrow> byte" where "Record_Repeat r = r ! 1"
definition Record_Hour :: "AlarmRecord \<Rightarrow> byte" where "Record_Hour r = r ! 2"
definition Record_Minute :: "AlarmRecord \<Rightarrow> byte" where "Record_Minute r = r ! 3"
definition Record_Kind :: "AlarmRecord \<Rightarrow> Kind" where "Record_Kind r = r ! 4"
definition Record_Duration :: "AlarmRecord \<Rightarrow> byte" where "Record_Duration r = r ! 6"
definition Record_Active :: "AlarmRecord \<Rightarrow> bool" where "Record_Active r \<longleftrightarrow> r ! 7 \<noteq> 0"

definition Record_Target :: "AlarmRecord \<Rightarrow> Address" where
  "Record_Target r = le16_of (r ! 8) (r ! 9)"

definition Record_Action :: "AlarmRecord \<Rightarrow> Action" where "Record_Action r = r ! 15"

definition Record_XOR :: "AlarmRecord \<Rightarrow> byte" where
  "Record_XOR r = xor_loop 0 r"

definition SetActive :: "AlarmRecord \<Rightarrow> bool \<Rightarrow> AlarmRecord" where
  "SetActive r on = (if on then r[7 := 0x01] else r[7 := 0x00])"

subsection \<open>Constructors\<close>

definition Countdown :: "Address \<Rightarrow> byte \<Rightarrow> go_error + AlarmRecord" where
  "Countdown target durationMin =
     (if durationMin = 0 then Inl (Errorf ''schedule: countdown duration must be non-zero'')
      else Inr ((replicate 16 0)
        [0 := CountdownID, 1 := NoWeekdays, 2 := 0, 3 := 0, 4 := KindCountdown, 5 := 0,
         6 := durationMin, 7 := 0x01, 8 := lo8 target, 9 := hi8 target, 15 := ActionOff]))"

definition build ::
    "byte \<Rightarrow> byte \<Rightarrow> byte \<Rightarrow> byte \<Rightarrow> Kind \<Rightarrow> byte \<Rightarrow> Address \<Rightarrow> Action \<Rightarrow> go_error + AlarmRecord" where
  "build aid rpt hour minute kind speed target action =
     (if hour > 23 then Inl (Errorf ''schedule: hour %d out of range'')
      else if minute > 59 then Inl (Errorf ''schedule: minute %d out of range'')
      else Inr ((replicate 16 0)
        [0 := aid, 1 := rpt, 2 := hour, 3 := minute, 4 := kind, 5 := speed, 6 := 0, 7 := 0x01,
         8 := lo8 target, 9 := hi8 target,
         10 := 0x00, 11 := 0x00, 12 := 0xFF, 13 := 0xFF, 14 := 0xFF, 15 := action]))"

definition OneShot ::
    "byte \<Rightarrow> Address \<Rightarrow> byte \<Rightarrow> byte \<Rightarrow> Action \<Rightarrow> go_error + AlarmRecord" where
  "OneShot aid target utcHour utcMin action =
     build aid 0x00 utcHour utcMin KindRegular 0 target action"

definition Recurring ::
    "byte \<Rightarrow> Address \<Rightarrow> byte \<Rightarrow> byte \<Rightarrow> byte \<Rightarrow> Action \<Rightarrow> go_error + AlarmRecord" where
  "Recurring aid target utcHour utcMin rpt action =
     (if rpt = 0 then
        Inl (Errorf (''schedule: recurring alarm needs at least one weekday bit set '' @
          [CHR 0xE2, CHR 0x80, CHR 0x94] @ '' use OneShot instead''))
      else build aid (rpt AND 0x7F) utcHour utcMin KindRegular 0 target action)"

definition Transition ::
    "byte \<Rightarrow> Address \<Rightarrow> byte \<Rightarrow> byte \<Rightarrow> byte \<Rightarrow> Kind \<Rightarrow> byte \<Rightarrow> Action \<Rightarrow> go_error + AlarmRecord" where
  "Transition aid target utcHour utcMin rpt kind speed action =
     (if kind \<noteq> KindFlick \<and> kind \<noteq> KindGradual then
        Inl (Errorf ''schedule: Transition requires KindFlick or KindGradual, got 0x%02X'')
      else build aid (rpt AND 0x7F) utcHour utcMin kind speed target action)"

subsection \<open>The records as byte lists\<close>

lemmas record_accessors = Record_ID_def Record_Repeat_def Record_Hour_def Record_Minute_def
  Record_Kind_def Record_Duration_def Record_Active_def Record_Target_def Record_Action_def

lemma Countdown_bytes:
  "durationMin \<noteq> 0 \<Longrightarrow> Countdown target durationMin =
     Inr [CountdownID, 0, 0, 0, KindCountdown, 0, durationMin, 1, lo8 target, hi8 target,
          0, 0, 0, 0, 0, ActionOff]"
  by (simp add: Countdown_def NoWeekdays_def numeral_eq_Suc)

lemma build_bytes:
  "hour \<le> 23 \<Longrightarrow> minute \<le> 59 \<Longrightarrow>
   build aid rpt hour minute kind speed target action =
     Inr [aid, rpt, hour, minute, kind, speed, 0, 1, lo8 target, hi8 target,
          0, 0, 0xFF, 0xFF, 0xFF, action]"
  by (simp add: build_def not_less [symmetric])
    (simp add: eval_nat_numeral)

lemma build_Inr_iff:
  "build aid rpt hour minute kind speed target action = Inr r \<longleftrightarrow>
     hour \<le> 23 \<and> minute \<le> 59 \<and>
     r = [aid, rpt, hour, minute, kind, speed, 0, 1, lo8 target, hi8 target,
          0, 0, 0xFF, 0xFF, 0xFF, action]"
  using build_bytes [of hour minute aid rpt kind speed target action]
  by (auto simp: build_def not_less split: if_splits)

text \<open>What every record the constructors return carries.\<close>

lemma build_accessors:
  assumes "build aid rpt hour minute kind speed target action = Inr r"
  shows "length r = 16" "Record_ID r = aid" "Record_Repeat r = rpt" "Record_Hour r = hour"
    "Record_Minute r = minute" "Record_Kind r = kind" "Record_Duration r = 0" "Record_Active r"
    "Record_Target r = target" "Record_Action r = action" "hour \<le> 23" "minute \<le> 59"
  using assms by (simp_all add: build_Inr_iff record_accessors)

lemma Countdown_accessors:
  assumes "Countdown target durationMin = Inr r"
  shows "length r = 16" "Record_ID r = CountdownID" "Record_Repeat r = NoWeekdays"
    "Record_Kind r = KindCountdown" "Record_Duration r = durationMin" "Record_Active r"
    "Record_Target r = target" "Record_Action r = ActionOff" "durationMin \<noteq> 0"
  using assms Countdown_bytes [of durationMin target]
  by (cases "durationMin = 0"; force simp: Countdown_def record_accessors NoWeekdays_def)+

lemma Record_XOR_fold: "Record_XOR r = XORFold r"
  by (simp add: Record_XOR_def XORFold_def)

text \<open>A mask without weekdays is zero or has only the eighth bit.\<close>

lemma week_mask_zero: "rpt AND 0x7F = 0 \<Longrightarrow> rpt = 0 \<or> rpt = 0x80" for rpt :: byte
proof -
  assume "rpt AND 0x7F = 0"
  moreover have "rpt = (rpt AND 0x7F) OR (rpt AND 0x80)"
  proof -
    have "rpt AND (0x7F OR 0x80) = (rpt AND 0x7F) OR (rpt AND 0x80)" by (rule bit.conj_disj_distrib)
    moreover have ones: "(0x7F OR 0x80 :: byte) = - 1" by simp
    ultimately show ?thesis unfolding ones by (simp only: and.right_neutral)
  qed
  moreover have "rpt AND 0x80 = 0 \<or> rpt AND 0x80 = 0x80"
  proof -
    have "bit (0x80 :: byte) n \<longleftrightarrow> n = 7" for n
      using bit_exp_iff [where 'a = byte, of 7 n] by auto
    then have "rpt AND 0x80 = (if bit rpt 7 then 0x80 else 0)"
      by (intro bit_word_eqI) (auto simp: bit_simps simp del: bit_numeral_word_iff)
    then show ?thesis by simp
  qed
  ultimately show ?thesis by (metis or.left_neutral)
qed

text \<open>The mask is tested before it is cut to the seven weekdays.\<close>

lemma Recurring_without_weekday:
  "Recurring aid target h m 0x80 action = OneShot aid target h m action \<and>
   (Recurring aid target h m rpt action = Inr r \<and> rpt \<noteq> 0x80 \<longrightarrow> Record_Repeat r \<noteq> 0)"
proof (intro conjI impI)
  show "Recurring aid target h m 0x80 action = OneShot aid target h m action"
    by (simp add: Recurring_def OneShot_def)
next
  assume *: "Recurring aid target h m rpt action = Inr r \<and> rpt \<noteq> 0x80"
  then have "build aid (rpt AND 0x7F) h m KindRegular 0 target action = Inr r" "rpt \<noteq> 0"
    by (auto simp: Recurring_def split: if_splits)
  with * week_mask_zero [of rpt] build_accessors(3) [OF this(1)] show "Record_Repeat r \<noteq> 0" by auto
qed

end
