(* ===== verification/Timezone.thy ===== *)
theory Timezone
  imports Pigsy_Prelude "HOL-Library.Signed_Division"
begin

section \<open>schedule/timezone.go: local and UTC schedules\<close>

text \<open>
  The conversion of an hour and a weekday bitmask between local time and UTC. Go's \<open>int\<close>
  is an integer whose arithmetic is wrapped to 64 bits by \<open>wrap64\<close>, and Go's \<open>%\<close> truncates
  towards zero (\<open>smod\<close>). The specification is the set of hours of the week at which a
  schedule fires, \<open>fire_hours\<close>.
\<close>

definition wrap64 :: "int \<Rightarrow> int" where
  "wrap64 k = signed_take_bit 63 k"

definition rotate_back :: "byte \<Rightarrow> byte" where
  "rotate_back r = (drop_bit 1 r OR push_bit 6 (r AND 0x01)) AND 0x7F"

definition rotate_forward :: "byte \<Rightarrow> byte" where
  "rotate_forward r = (push_bit 1 r AND 0x7F) OR (drop_bit 6 r AND 0x01)"

definition LocalToUTC :: "byte \<Rightarrow> byte \<Rightarrow> int \<Rightarrow> byte \<times> byte" where
  "LocalToUTC localHour rpt tzOffsetHours =
     (let adjusted = wrap64 (wrap64 (uint localHour - tzOffsetHours) + 24);
          utcHour = word_of_int
            (wrap64 (wrap64 (uint localHour - tzOffsetHours) + 24 * 2) smod 24);
          r = rpt AND 0x7F;
          utcRepeat = (if adjusted < 24 then rotate_back r
                       else if adjusted \<ge> 48 then rotate_forward r
                       else r)
      in (utcHour, utcRepeat))"

definition UTCToLocal :: "byte \<Rightarrow> byte \<Rightarrow> int \<Rightarrow> byte \<times> byte" where
  "UTCToLocal utcHour utcRepeat tzOffsetHours =
     (let adjusted = wrap64 (wrap64 (uint utcHour + tzOffsetHours) + 24);
          localHour = word_of_int
            (wrap64 (wrap64 (uint utcHour + tzOffsetHours) + 24 * 2) smod 24);
          r = utcRepeat AND 0x7F;
          localRepeat = (if adjusted < 24 then rotate_back r
                         else if adjusted \<ge> 48 then rotate_forward r
                         else r)
      in (localHour, localRepeat))"

subsection \<open>Arithmetic without overflow\<close>

lemma wrap64_small [simp]: "\<bar>k\<bar> < 1000000 \<Longrightarrow> wrap64 k = k"
  unfolding wrap64_def by (rule signed_take_bit_int_eq_self) simp_all

lemma smod_pos: "0 \<le> a \<Longrightarrow> 0 < b \<Longrightarrow> a smod b = a mod b" for a b :: int
  by (simp add: signed_modulo_int_def sgn_if)

lemma uint_hour: "0 \<le> k \<Longrightarrow> k < 24 \<Longrightarrow> uint (word_of_int k :: byte) = k"
  by (simp add: uint_word_of_int)

text \<open>Both directions are the same shift of the hour, by minus or plus the offset.\<close>

definition shift_schedule :: "int \<Rightarrow> byte \<Rightarrow> int \<Rightarrow> byte \<times> byte" where
  "shift_schedule h r d =
     (word_of_int ((h + d) mod 24),
      if h + d < 0 then rotate_back r else if h + d \<ge> 24 then rotate_forward r else r)"

lemma uint_byte_bound: "0 \<le> uint b" "uint b < 256" for b :: byte
  using unsigned_less [where 'a = int, of b] by simp_all

lemma LocalToUTC_shift:
  assumes "\<bar>tz\<bar> \<le> 24"
  shows "LocalToUTC h r tz = shift_schedule (uint h) (r AND 0x7F) (- tz)"
proof -
  have "\<bar>uint h - tz\<bar> < 1000000" "\<bar>uint h - tz + 24\<bar> < 1000000"
      "\<bar>uint h - tz + 48\<bar> < 1000000" "0 \<le> uint h - tz + 48"
    using assms uint_byte_bound [of h] by linarith+
  moreover have "(uint h - tz + 48) mod 24 = (uint h - tz) mod 24"
    using mod_mult_self1 [of "uint h - tz" 2 24] by simp
  ultimately show ?thesis
    by (simp add: LocalToUTC_def shift_schedule_def smod_pos)
qed

lemma UTCToLocal_shift:
  assumes "\<bar>tz\<bar> \<le> 24"
  shows "UTCToLocal h r tz = shift_schedule (uint h) (r AND 0x7F) tz"
proof -
  have "\<bar>uint h + tz\<bar> < 1000000" "\<bar>uint h + tz + 24\<bar> < 1000000"
      "\<bar>uint h + tz + 48\<bar> < 1000000" "0 \<le> uint h + tz + 48"
    using assms uint_byte_bound [of h] by linarith+
  moreover have "(uint h + tz + 48) mod 24 = (uint h + tz) mod 24"
    using mod_mult_self1 [of "uint h + tz" 2 24] by simp
  ultimately show ?thesis
    by (simp add: UTCToLocal_def shift_schedule_def smod_pos)
qed

subsection \<open>The rotations, bit by bit\<close>

lemma and_7F: "r AND 0x7F = take_bit 7 r" for r :: byte
  by (simp add: take_bit_eq_mask mask_numeral)

lemma and_01: "r AND 0x01 = take_bit 1 r" for r :: byte
  by (simp add: take_bit_eq_mask)

lemma bit_week: "bit (r AND 0x7F) n \<longleftrightarrow> n < 7 \<and> bit r n" for r :: byte
  by (simp add: and_7F bit_simps)

lemma bit_rotate_back:
  "bit (rotate_back (r AND 0x7F)) n \<longleftrightarrow> n < 7 \<and> bit r (if n = 6 then 0 else Suc n)"
  unfolding rotate_back_def and_7F and_01
  by (simp only: bit_or_iff bit_take_bit_iff bit_push_bit_iff bit_drop_bit_eq comp_def
      possible_bit_word) (auto simp del: bit_0)

lemma bit_rotate_forward:
  "bit (rotate_forward (r AND 0x7F)) n \<longleftrightarrow> n < 7 \<and> bit r (if n = 0 then 6 else n - 1)"
  unfolding rotate_forward_def and_7F and_01
  by (simp only: bit_or_iff bit_take_bit_iff bit_push_bit_iff bit_drop_bit_eq comp_def
      possible_bit_word) (auto simp del: bit_0)

lemma rotate_forward_back:
  "rotate_forward (rotate_back (r AND 0x7F) AND 0x7F) = r AND 0x7F"
  by (rule bit_word_eqI) (auto simp: bit_rotate_forward bit_rotate_back bit_week)

lemma rotate_back_forward:
  "rotate_back (rotate_forward (r AND 0x7F) AND 0x7F) = r AND 0x7F"
  by (rule bit_word_eqI) (auto simp: bit_rotate_forward bit_rotate_back bit_week)

subsection \<open>The hours of the week\<close>

text \<open>Hour \<open>24 d + h\<close> of the week (Monday is day 0) fires when bit \<open>d\<close> of the mask is set.\<close>

definition fire_hours :: "int \<Rightarrow> byte \<Rightarrow> int set" where
  "fire_hours h r = {24 * int d + h | d. d < 7 \<and> bit r d}"

text \<open>A relabelling of the days that agrees with adding \<open>d\<close> hours moves the firing hours by \<open>d\<close>.\<close>

lemma fire_hours_relabel:
  assumes bits: "\<And>n. bit r' n \<longleftrightarrow> n < 7 \<and> bit r (f n)"
    and f: "\<And>n. n < 7 \<Longrightarrow> f n < 7 \<and> (24 * int (f n) + h + d) mod 168 = 24 * int n + u"
    and onto: "\<And>m. m < 7 \<Longrightarrow> \<exists>n < 7. f n = m"
  shows "fire_hours u r' = (\<lambda>x. (x + d) mod 168) ` fire_hours h r"
proof (intro set_eqI iffI)
  fix x assume "x \<in> fire_hours u r'"
  then obtain n where n: "n < 7" "bit r' n" "x = 24 * int n + u" by (auto simp: fire_hours_def)
  then have "24 * int (f n) + h \<in> fire_hours h r" using f bits by (auto simp: fire_hours_def)
  moreover have "x = (24 * int (f n) + h + d) mod 168" using n f by simp
  ultimately show "x \<in> (\<lambda>x. (x + d) mod 168) ` fire_hours h r" by blast
next
  fix x assume "x \<in> (\<lambda>x. (x + d) mod 168) ` fire_hours h r"
  then obtain m where m: "m < 7" "bit r m" "x = (24 * int m + h + d) mod 168"
    by (auto simp: fire_hours_def)
  then obtain n where "n < 7" "f n = m" using onto by blast
  with m f bits show "x \<in> fire_hours u r'" by (auto simp: fire_hours_def)
qed

lemma week_index:
  assumes "n < 7" "0 \<le> u" "u < (24 :: int)"
  shows "(24 * int (if n = 6 then 0 else Suc n) + (u - 24)) mod 168 = 24 * int n + u"
    and "(24 * int (if n = 0 then 6 else n - 1) + (u + 24)) mod 168 = 24 * int n + u"
    and "(24 * int n + u) mod 168 = 24 * int n + u"
proof -
  have m: "(24 * int n + u) mod 168 = 24 * int n + u" using assms by (intro mod_pos_pos_trivial) auto
  show "(24 * int n + u) mod 168 = 24 * int n + u" by (rule m)
  show "(24 * int (if n = 6 then 0 else Suc n) + (u - 24)) mod 168 = 24 * int n + u"
  proof (cases "n = 6")
    case True
    then show ?thesis using mod_mult_self1 [of "u - 24" 1 168] m by (simp add: add.commute)
  next
    case False
    then show ?thesis using m by (simp add: algebra_simps)
  qed
  show "(24 * int (if n = 0 then 6 else n - 1) + (u + 24)) mod 168 = 24 * int n + u"
  proof (cases "n = 0")
    case True
    then show ?thesis using mod_mult_self1 [of u 1 168] m by (simp add: add.commute)
  next
    case False
    then have "24 * int (n - 1) + (u + 24) = 24 * int n + u" by (simp add: of_nat_diff)
    with False m show ?thesis by simp
  qed
qed

lemma shift_day_cases:
  fixes h d :: int
  assumes "0 \<le> h" "h < 24" "\<bar>d\<bar> \<le> 24"
  obtains "h + d < 0" "h + d = (h + d) mod 24 - 24"
    | "0 \<le> h + d" "h + d < 24" "h + d = (h + d) mod 24"
    | "24 \<le> h + d" "h + d = (h + d) mod 24 + 24"
proof -
  consider "h + d < 0" | "0 \<le> h + d" "h + d < 24" | "24 \<le> h + d" by linarith
  then show thesis
  proof cases
    case 1
    have "(h + d) mod 24 = (h + d + 24) mod 24" by simp
    also have "\<dots> = h + d + 24" using assms 1 by (intro mod_pos_pos_trivial) auto
    finally show ?thesis using 1 that(1) by simp
  next
    case 2
    then show ?thesis using that(2) by (simp add: mod_pos_pos_trivial)
  next
    case 3
    have "(h + d) mod 24 = (h + d - 24 + 24) mod 24" by simp
    also have "\<dots> = (h + d - 24) mod 24" by (rule mod_add_self2)
    also have "\<dots> = h + d - 24" using assms 3 by (intro mod_pos_pos_trivial) auto
    finally show ?thesis using 3 that(3) by simp
  qed
qed

lemma shift_schedule_fires:
  assumes h: "0 \<le> h" "h < 24" and d: "\<bar>d\<bar> \<le> 24"
    and eq: "shift_schedule h (r AND 0x7F) d = (u, r')"
  shows "fire_hours (uint u) r' = (\<lambda>x. (x + d) mod 168) ` fire_hours h r"
proof -
  define v where "v = (h + d) mod 24"
  have v: "0 \<le> v" "v < 24" by (simp_all add: v_def)
  have u: "uint u = v" using eq uint_hour [OF v] by (simp add: shift_schedule_def v_def)
  from h d show ?thesis
  proof (cases rule: shift_day_cases)
    case 1
    then have r': "r' = rotate_back (r AND 0x7F)" using eq by (simp add: shift_schedule_def)
    show ?thesis unfolding u r'
    proof (rule fire_hours_relabel [where f = "\<lambda>n. if n = 6 then 0 else Suc n"])
      fix n :: nat assume "n < 7"
      with week_index(1) [OF this v] 1(2) [folded v_def]
      show "(if n = 6 then 0 else Suc n) < 7 \<and>
          (24 * int (if n = 6 then 0 else Suc n) + h + d) mod 168 = 24 * int n + v"
        by (simp add: add.assoc)
    next
      fix m :: nat assume "m < 7"
      then show "\<exists>n<7. (if n = 6 then 0 else Suc n) = m"
        by (intro exI [of _ "if m = 0 then 6 else m - 1"]) auto
    qed (rule bit_rotate_back)
  next
    case 2
    then have r': "r' = r AND 0x7F" using eq by (simp add: shift_schedule_def)
    show ?thesis unfolding u r'
      by (rule fire_hours_relabel [where f = "\<lambda>n. n"])
        (use week_index(3) [OF _ v] 2(3) [folded v_def] in \<open>auto simp: bit_week add.assoc\<close>)
  next
    case 3
    then have r': "r' = rotate_forward (r AND 0x7F)" using eq by (simp add: shift_schedule_def)
    show ?thesis unfolding u r'
    proof (rule fire_hours_relabel [where f = "\<lambda>n. if n = 0 then 6 else n - 1"])
      fix n :: nat assume "n < 7"
      with week_index(2) [OF this v] 3(2) [folded v_def]
      show "(if n = 0 then 6 else n - 1) < 7 \<and>
          (24 * int (if n = 0 then 6 else n - 1) + h + d) mod 168 = 24 * int n + v"
        by (auto simp: add.assoc)
    next
      fix m :: nat assume "m < 7"
      then show "\<exists>n<7. (if n = 0 then 6 else n - 1) = m"
        by (intro exI [of _ "if m = 6 then 0 else Suc m"]) auto
    qed (rule bit_rotate_forward)
  qed
qed

lemma shift_schedule_back:
  assumes h: "0 \<le> h" "h < 24" and d: "\<bar>d\<bar> \<le> 24"
    and eq: "shift_schedule h (r AND 0x7F) d = (u, r')"
  shows "shift_schedule (uint u) (r' AND 0x7F) (- d) = (word_of_int h, r AND 0x7F)"
proof -
  define v where "v = (h + d) mod 24"
  have v: "0 \<le> v" "v < 24" by (simp_all add: v_def)
  have u: "uint u = v" using eq uint_hour [OF v] by (simp add: shift_schedule_def v_def)
  have "(v - d) mod 24 = h" using h by (simp add: v_def mod_diff_left_eq)
  moreover have "((r AND 0x7F) AND 0x7F) = r AND 0x7F" by (simp add: and.assoc)
  moreover from h d have "if v - d < 0 then r' = rotate_forward (r AND 0x7F)
      else if v - d \<ge> 24 then r' = rotate_back (r AND 0x7F) else r' = r AND 0x7F"
    by (cases rule: shift_day_cases) (use eq h in \<open>auto simp: shift_schedule_def v_def\<close>)
  ultimately show ?thesis
    by (auto simp: u shift_schedule_def rotate_forward_back rotate_back_forward split: if_splits)
qed

end
