(* ===== verification/Notification.thy ===== *)
theory Notification
  imports Login Address_MAC Protocol_Const Device_Class
begin

section \<open>notification.go: decrypting and parsing notifications\<close>

text \<open>
  The raw 20-byte packet, its decryption, and the parser of each payload. A parser that
  returns an error returns the left of a sum; the zero value Go returns beside it is dropped.
  Each parser checks its opcode first and then its length, as the code does.
\<close>

record Notification =
  Source :: u16
  NOpcode :: byte
  NVendor :: u16
  Payload :: "byte list"

definition ParseNotificationWire ::
    "byte list \<Rightarrow> go_error + (byte list \<times> u16 \<times> byte list \<times> byte list)" where
  "ParseNotificationWire raw =
     (if length raw \<noteq> 20 then
        Inl (Errorf ''pigsydust: notification must be 20 bytes, got %d'')
      else
        Inr (take 3 raw, le16_of (raw ! 3) (raw ! 4), take 2 (drop 5 raw), take 13 (drop 7 raw)))"

definition DecryptNotification ::
    "byte list \<Rightarrow> MACAddress \<Rightarrow> byte list \<Rightarrow> go_error + Notification" where
  "DecryptNotification sk gwMAC raw =
     (case ParseNotificationWire raw of
        Inl err \<Rightarrow> Inl err
      | Inr (sno, srcAddr, tag, ct) \<Rightarrow>
          let nonce = NotificationNonce gwMAC sno srcAddr
          in case Decrypt sk nonce tag ct of
               Inl err \<Rightarrow> Inl err
             | Inr pt \<Rightarrow>
                 if length pt < 3 then
                   Inl (Wrapf ''%w: notification plaintext %d bytes'' [ErrShortPacket])
                 else Inr \<lparr>Source = srcAddr, NOpcode = pt ! 0,
                        NVendor = le16_of (pt ! 1) (pt ! 2), Payload = drop 3 pt\<rparr>)"

subsection \<open>Status\<close>

record StatusFlags =
  Online :: bool
  AlarmDev :: bool
  Version :: byte

definition ParseStatusFlags :: "byte \<Rightarrow> StatusFlags" where
  "ParseStatusFlags b =
     \<lparr>Online = (b AND 0x01 \<noteq> 0), AlarmDev = (b AND 0x02 \<noteq> 0), Version = drop_bit 2 b\<rparr>"

record DeviceStatus =
  DAddress :: u16
  On :: bool
  DMAC :: MACAddress
  RoutingMetric :: byte
  DType :: byte
  DSubtype :: byte
  DStatusByte :: byte
  DStatusFlags :: StatusFlags

definition DeviceStatus_DeviceClass :: "DeviceStatus \<Rightarrow> DeviceClass" where
  "DeviceStatus_DeviceClass s = DeviceClassLookup (DType s) (DSubtype s)"

definition ParseDeviceStatus :: "Notification \<Rightarrow> go_error + DeviceStatus" where
  "ParseDeviceStatus n =
     (if NOpcode n \<noteq> OpNotifyStatusPoll then
        Inl (Wrapf ''%w: expected 0xDB, got 0x%02X'' [ErrUnexpectedOpcode])
      else if length (Payload n) < 10 then
        Inl (Wrapf ''%w: 0xDB payload %d bytes'' [ErrShortPacket])
      else
        let ds = \<lparr>DAddress = Source n, On = (Payload n ! 9 \<noteq> 0), DMAC = replicate 6 0,
                  RoutingMetric = Payload n ! 8, DType = Payload n ! 1,
                  DSubtype = Payload n ! 2, DStatusByte = Payload n ! 3,
                  DStatusFlags = ParseStatusFlags (Payload n ! 3)\<rparr>
        in Inr (ds\<lparr>DMAC := (DMAC ds)[5 := Payload n ! 4, 4 := Payload n ! 5,
                              3 := Payload n ! 6, 2 := Payload n ! 7]\<rparr>))"

text \<open>The loop over the two offsets; fields the composite literal omits are zero.\<close>

fun status_slots :: "byte list \<Rightarrow> nat list \<Rightarrow> DeviceStatus list" where
  "status_slots p [] = []"
| "status_slots p (off # offs) =
     (let addr = p ! off
      in if addr = 0 then status_slots p offs
         else let flags = p ! (off + 3)
              in \<lparr>DAddress = ucast addr, On = (p ! (off + 2) \<noteq> 0), DMAC = replicate 6 0,
                  RoutingMetric = p ! (off + 1), DType = 0, DSubtype = 0,
                  DStatusByte = flags, DStatusFlags = ParseStatusFlags flags\<rparr>
                 # status_slots p offs)"

definition ParseDeviceStatusBroadcast :: "Notification \<Rightarrow> go_error + DeviceStatus list" where
  "ParseDeviceStatusBroadcast n =
     (if NOpcode n \<noteq> OpNotifyStatusBroadcast then
        Inl (Wrapf ''%w: expected 0xDC, got 0x%02X'' [ErrUnexpectedOpcode])
      else if length (Payload n) < 8 then
        Inl (Wrapf ''%w: 0xDC payload %d bytes'' [ErrShortPacket])
      else Inr (status_slots (Payload n) [0, 4]))"

subsection \<open>Groups\<close>

fun group_bytes :: "byte list \<Rightarrow> byte list" where
  "group_bytes [] = []"
| "group_bytes (b # bs) = (if b = 0x00 \<or> b = 0xFF then [] else b # group_bytes bs)"

definition ParseGroupMembership :: "Notification \<Rightarrow> go_error + byte list" where
  "ParseGroupMembership n =
     (if NOpcode n \<noteq> OpNotifyGroupResponse then
        Inl (Wrapf ''%w: expected 0xD4, got 0x%02X'' [ErrUnexpectedOpcode])
      else Inr (group_bytes (Payload n)))"

subsection \<open>LED state and slot assignment\<close>

record LEDState =
  BlueChannel :: byte
  BlueLevel :: byte
  OrangeChannel :: byte
  OrangeLevel :: byte

definition BlueOn :: "LEDState \<Rightarrow> bool" where
  "BlueOn s \<longleftrightarrow> BlueLevel s \<noteq> 0"

definition OrangeOn :: "LEDState \<Rightarrow> bool" where
  "OrangeOn s \<longleftrightarrow> OrangeLevel s \<noteq> 0"

definition ParseLEDState :: "Notification \<Rightarrow> go_error + LEDState" where
  "ParseLEDState n =
     (if NOpcode n \<noteq> OpNotifyLEDOrSlot then
        Inl (Wrapf ''%w: expected 0xD3, got 0x%02X'' [ErrUnexpectedOpcode])
      else if length (Payload n) < 6 then
        Inl (Wrapf ''%w: 0xD3 LED payload %d bytes'' [ErrShortPacket])
      else Inr \<lparr>BlueChannel = Payload n ! 2, BlueLevel = Payload n ! 3,
                OrangeChannel = Payload n ! 4, OrangeLevel = Payload n ! 5\<rparr>)"

definition ParseSlotAssignment :: "Notification \<Rightarrow> go_error + byte" where
  "ParseSlotAssignment n =
     (if NOpcode n \<noteq> OpNotifyLEDOrSlot then
        Inl (Wrapf ''%w: expected 0xD3, got 0x%02X'' [ErrUnexpectedOpcode])
      else if length (Payload n) < 4 then
        Inl (Wrapf ''%w: 0xD3 slot payload %d bytes'' [ErrShortPacket])
      else Inr (Payload n ! 3))"

subsection \<open>Alarm fragments\<close>

record AlarmFragment =
  Slot :: byte
  Index :: byte
  FragData :: "byte list"

definition ParseAlarmFragment :: "Notification \<Rightarrow> go_error + AlarmFragment" where
  "ParseAlarmFragment n =
     (let f = \<lparr>Slot = 0, Index = 0, FragData = []\<rparr>
      in if NOpcode n \<noteq> OpNotifyAlarmFragment then
           Inl (Wrapf ''%w: expected 0xC2, got 0x%02X'' [ErrUnexpectedOpcode])
         else if length (Payload n) < 1 then
           Inl (Wrapf ''%w: 0xC2 payload empty'' [ErrShortPacket])
         else Inr (f\<lparr>Slot := Payload n ! 0, FragData := drop 1 (Payload n)\<rparr>))"

lemmas notification_parsers = ParseDeviceStatus_def ParseDeviceStatusBroadcast_def
  ParseGroupMembership_def ParseLEDState_def ParseSlotAssignment_def ParseAlarmFragment_def

subsection \<open>The wire format\<close>

text \<open>A packet as the mesh builds it: the sequence number, the sender, the tag, the ciphertext.\<close>

definition notification_wire :: "byte list \<Rightarrow> u16 \<Rightarrow> byte list \<Rightarrow> byte list \<Rightarrow> byte list" where
  "notification_wire sno src tag ct = sno @ [lo8 src, hi8 src] @ tag @ ct"

lemma length_notification_wire [simp, go_len]:
  "length (notification_wire sno src tag ct) = length sno + 2 + length tag + length ct"
  by (simp add: notification_wire_def)

lemma ParseNotificationWire_wire:
  assumes "length sno = 3" "length tag = 2" "length ct = 13"
  shows "ParseNotificationWire (notification_wire sno src tag ct) = Inr (sno, src, tag, ct)"
  using assms by (simp add: ParseNotificationWire_def notification_wire_def nth_append)

lemma ParseNotificationWire_Inr:
  assumes "ParseNotificationWire raw = Inr (sno, src, tag, ct)"
  shows "raw = notification_wire sno src tag ct \<and>
         length sno = 3 \<and> length tag = 2 \<and> length ct = 13"
proof -
  have len: "length raw = 20" using assms by (auto simp: ParseNotificationWire_def split: if_splits)
  have "(take 3 raw, le16_of (raw ! 3) (raw ! 4), take 2 (drop 5 raw), take 13 (drop 7 raw)) =
      (sno, src, tag, ct)"
    using assms len by (auto simp: ParseNotificationWire_def)
  then have parts: "sno = take 3 raw" "src = le16_of (raw ! 3) (raw ! 4)" "tag = take 2 (drop 5 raw)"
    "ct = take 13 (drop 7 raw)"
    by (simp_all only: prod.inject)
  have "drop 3 raw = raw ! 3 # raw ! 4 # drop 5 raw"
    using len by (simp add: Cons_nth_drop_Suc [symmetric] numeral_eq_Suc)
  moreover have "drop 5 raw = take 2 (drop 5 raw) @ drop 7 raw"
    using append_take_drop_id [of 2 "drop 5 raw"] by simp
  moreover have "take 13 (drop 7 raw) = drop 7 raw" using len by simp
  ultimately have "take 3 raw @ [raw ! 3, raw ! 4] @ take 2 (drop 5 raw) @ take 13 (drop 7 raw) = raw"
    using append_take_drop_id [of 3 raw] by simp
  then show ?thesis using len by (simp add: parts notification_wire_def)
qed

lemma ParseNotificationWire_Inl:
  "ParseNotificationWire raw = Inl e \<longleftrightarrow>
     length raw \<noteq> 20 \<and> e = Errorf ''pigsydust: notification must be 20 bytes, got %d''"
  by (auto simp: ParseNotificationWire_def)

interpretation wire: codec
  "\<lambda>(sno, src, tag, ct). length sno = 3 \<and> length tag = 2 \<and> length ct = 13"
  "\<lambda>(sno, src, tag, ct). notification_wire sno src tag ct"
  "\<lambda>raw. case ParseNotificationWire raw of Inr w \<Rightarrow> Some w | Inl _ \<Rightarrow> None"
  by unfold_locales (auto simp: ParseNotificationWire_wire)

subsection \<open>Decryption\<close>

lemma length_Decrypt: "Decrypt sk nonce tag ct = Inr pt \<Longrightarrow> length pt = length ct"
  by (simp add: Decrypt_Inr_iff)

lemma DecryptNotification_wire:
  assumes "length sno = 3" "length tag = 2" "length ct = 13"
  shows "DecryptNotification sk gw (notification_wire sno src tag ct) =
     (case Decrypt sk (NotificationNonce gw sno src) tag ct of
        Inl err \<Rightarrow> Inl err
      | Inr pt \<Rightarrow> Inr \<lparr>Source = src, NOpcode = pt ! 0,
                       NVendor = le16_of (pt ! 1) (pt ! 2), Payload = drop 3 pt\<rparr>)"
  using length_Decrypt [of sk "NotificationNonce gw sno src" tag ct] assms
  by (cases "Decrypt sk (NotificationNonce gw sno src) tag ct")
    (simp_all add: DecryptNotification_def ParseNotificationWire_wire Let_def)

lemma DecryptNotification_Inr:
  "DecryptNotification sk gw raw = Inr n \<longleftrightarrow>
     (\<exists>sno src tag ct pt. raw = notification_wire sno src tag ct \<and>
        length sno = 3 \<and> length tag = 2 \<and> length ct = 13 \<and>
        Decrypt sk (NotificationNonce gw sno src) tag ct = Inr pt \<and>
        n = \<lparr>Source = src, NOpcode = pt ! 0, NVendor = le16_of (pt ! 1) (pt ! 2),
             Payload = drop 3 pt\<rparr>)" (is "_ \<longleftrightarrow> ?R")
proof
  assume dec: "DecryptNotification sk gw raw = Inr n"
  then obtain sno src tag ct where p: "ParseNotificationWire raw = Inr (sno, src, tag, ct)"
    by (auto simp: DecryptNotification_def split: sum.splits)
  from ParseNotificationWire_Inr [OF p] dec show ?R
    by (fastforce simp: DecryptNotification_wire split: sum.splits)
qed (auto simp: DecryptNotification_wire)

lemma DecryptNotification_Payload:
  "DecryptNotification sk gw raw = Inr n \<Longrightarrow> length (Payload n) = 10"
  by (auto simp: DecryptNotification_Inr Decrypt_Inr_iff)

lemma DecryptNotification_Inl:
  assumes "DecryptNotification sk gw raw = Inl e"
  shows "length raw \<noteq> 20 \<and> e = Errorf ''pigsydust: notification must be 20 bytes, got %d'' \<or>
         length raw = 20 \<and> e = Errorf ''pigsydust/crypto: CBC-MAC tag mismatch''"
proof (cases "ParseNotificationWire raw")
  case (Inl e')
  with assms show ?thesis by (auto simp: DecryptNotification_def ParseNotificationWire_Inl)
next
  case (Inr w)
  then obtain sno src tag ct where p: "ParseNotificationWire raw = Inr (sno, src, tag, ct)"
    by (cases w) auto
  from ParseNotificationWire_Inr [OF p] assms show ?thesis
    by (auto simp: DecryptNotification_wire Decrypt_Inl_iff split: sum.splits)
qed

text \<open>What the parsers need of a payload is what decryption provides: ten bytes.\<close>

lemma parsers_on_ten_bytes:
  assumes "length (Payload n) = 10"
  shows "NOpcode n = OpNotifyStatusPoll \<longleftrightarrow> (\<exists>x. ParseDeviceStatus n = Inr x)"
    "NOpcode n = OpNotifyStatusBroadcast \<longleftrightarrow> (\<exists>x. ParseDeviceStatusBroadcast n = Inr x)"
    "NOpcode n = OpNotifyGroupResponse \<longleftrightarrow> (\<exists>x. ParseGroupMembership n = Inr x)"
    "NOpcode n = OpNotifyLEDOrSlot \<longleftrightarrow> (\<exists>x. ParseLEDState n = Inr x)"
    "NOpcode n = OpNotifyLEDOrSlot \<longleftrightarrow> (\<exists>x. ParseSlotAssignment n = Inr x)"
    "NOpcode n = OpNotifyAlarmFragment \<longleftrightarrow> (\<exists>x. ParseAlarmFragment n = Inr x)"
  using assms by (simp_all add: notification_parsers Let_def)

lemma group_bytes_takeWhile: "group_bytes p = takeWhile (\<lambda>b. b \<noteq> 0x00 \<and> b \<noteq> 0xFF) p"
  by (induction p) auto

text \<open>The packed status byte is lossless.\<close>

definition pack_flags :: "StatusFlags \<Rightarrow> byte" where
  "pack_flags f = of_bool (Online f) OR push_bit 1 (of_bool (AlarmDev f)) OR push_bit 2 (Version f)"

lemma and_bit_byte: "(b AND 0x01 \<noteq> 0) = bit b 0" "(b AND 0x02 \<noteq> 0) = bit b 1" for b :: byte
proof -
  show "(b AND 0x01 \<noteq> 0) = bit b 0" by (simp add: bit_0 and_one_eq odd_iff_mod_2_eq_one)
  have "b AND 0x02 = of_bool (bit b 1) * 2"
    by (rule bit_word_eqI) (auto simp: bit_simps)
  then show "(b AND 0x02 \<noteq> 0) = bit b 1" by simp
qed

lemma pack_ParseStatusFlags: "pack_flags (ParseStatusFlags b) = b"
proof (rule bit_word_eqI)
  fix n assume n: "n < LENGTH(8)"
  consider "n = 0" | "n = 1" | "2 \<le> n" by linarith
  then show "bit (pack_flags (ParseStatusFlags b)) n = bit b n"
    by cases (use n le_add_diff_inverse [of 2 n] in \<open>auto simp: pack_flags_def ParseStatusFlags_def
      and_bit_byte bit_simps simp del: bit_0 add_2_eq_Suc\<close>)
qed

interpretation flags: codec "\<lambda>_. True" ParseStatusFlags "\<lambda>f. Some (pack_flags f)"
  by unfold_locales (simp add: pack_ParseStatusFlags)

subsection \<open>What is accepted, and the errors\<close>

lemma notification_accepts:
  "DecryptNotification sk gw raw = Inr n \<longleftrightarrow>
     (\<exists>sno pt. length sno = 3 \<and> length pt = 13 \<and>
        raw = notification_wire sno (Source n) (cbcMAC sk (NotificationNonce gw sno (Source n)) pt)
                (ctrCrypt sk (NotificationNonce gw sno (Source n)) pt) \<and>
        n = \<lparr>Source = Source n, NOpcode = pt ! 0, NVendor = le16_of (pt ! 1) (pt ! 2),
             Payload = drop 3 pt\<rparr>)" (is "?L \<longleftrightarrow> ?R")
proof
  assume ?L
  then obtain sno src tag ct pt where *: "raw = notification_wire sno src tag ct" "length sno = 3"
    "length ct = 13" "Decrypt sk (NotificationNonce gw sno src) tag ct = Inr pt"
    and n: "n = \<lparr>Source = src, NOpcode = pt ! 0, NVendor = le16_of (pt ! 1) (pt ! 2),
             Payload = drop 3 pt\<rparr>"
    by (auto simp: DecryptNotification_Inr)
  from *(4) have "pt = ctrCrypt sk (NotificationNonce gw sno src) ct"
    "tag = cbcMAC sk (NotificationNonce gw sno src) pt" by (simp_all add: Decrypt_Inr_iff)
  with * n show ?R
    by (intro exI [of _ sno] exI [of _ pt]) (simp add: ctrCrypt_involution)
next
  assume ?R
  then obtain sno pt where *: "length sno = 3" "length pt = 13"
    "raw = notification_wire sno (Source n) (cbcMAC sk (NotificationNonce gw sno (Source n)) pt)
                (ctrCrypt sk (NotificationNonce gw sno (Source n)) pt)"
    and n: "n = \<lparr>Source = Source n, NOpcode = pt ! 0, NVendor = le16_of (pt ! 1) (pt ! 2),
             Payload = drop 3 pt\<rparr>"
    by blast
  have "DecryptNotification sk gw raw = Inr \<lparr>Source = Source n, NOpcode = pt ! 0,
      NVendor = le16_of (pt ! 1) (pt ! 2), Payload = drop 3 pt\<rparr>"
    using *(1,2)
    by (simp add: *(3) DecryptNotification_wire Decrypt_Encrypt_parts)
  then show ?L by (simp only: n [symmetric])
qed

lemma notification_errors:
  "case DecryptNotification sk gw raw of
     Inl e \<Rightarrow> e = (if length raw = 20 then Errorf ''pigsydust/crypto: CBC-MAC tag mismatch''
                  else Errorf ''pigsydust: notification must be 20 bytes, got %d'') \<and>
             \<not> errors_is e ErrTagMismatch \<and> \<not> errors_is e ErrShortPacket
   | Inr n \<Rightarrow> length raw = 20 \<and> length (Payload n) = 10"
proof (cases "DecryptNotification sk gw raw")
  case (Inl e)
  with DecryptNotification_Inl [OF Inl] show ?thesis by auto
next
  case (Inr n)
  then have "length raw = 20"
    by (auto simp: DecryptNotification_Inr)
  with Inr DecryptNotification_Payload [OF Inr] show ?thesis by simp
qed

end
