(* ===== verification/Advertisement.thy ===== *)
theory Advertisement
  imports Notification
begin

section \<open>advertisement.go: manufacturer data\<close>

text \<open>
  The parser of the manufacturer data of a Pixie advertisement. \<open>ParseAdvertisement\<close>
  returns \<open>nil\<close> (here \<open>None\<close>) on fewer than 15 bytes; the last step reads four bytes
  by \<open>binary.LittleEndian.Uint32\<close> from a slice of exactly four.
\<close>

record Advertisement =
  MeshName :: string
  AMAC :: MACAddress
  DeviceType :: byte
  DeviceSubtype :: byte
  AStatusByte :: byte
  AStatusFlags :: StatusFlags
  MeshAddress :: byte
  NetworkID :: u32
  Raw :: "byte list"

definition DeviceTypeGateway :: byte where
  [go_const]: "DeviceTypeGateway = 0x47"

definition ParseAdvertisement :: "byte list \<Rightarrow> Advertisement option" where
  "ParseAdvertisement data =
     (if length data < 15 then None
      else
        let mac = (replicate 6 0)[0 := 0x00, 1 := 0x21];
            mac = mac[5 := data ! 2];
            mac = mac[4 := data ! 3];
            mac = mac[3 := data ! 4];
            mac = mac[2 := data ! 5]
        in Some \<lparr>MeshName = [], AMAC = mac, DeviceType = data ! 6, DeviceSubtype = data ! 7,
                AStatusByte = data ! 8, AStatusFlags = ParseStatusFlags (data ! 8),
                MeshAddress = data ! 9,
                NetworkID = le32_of (data ! 11) (data ! 12) (data ! 13) (data ! 14),
                Raw = data\<rparr>)"

definition ParseManufacturerData :: "u16 \<Rightarrow> byte list \<Rightarrow> go_error + Advertisement" where
  "ParseManufacturerData companyID data =
     (if companyID \<noteq> ManufacturerID then
        Inl (Errorf ''pigsydust: unexpected manufacturer ID 0x%04X (expected 0x0211)'')
      else
        case ParseAdvertisement data of
          None \<Rightarrow> Inl (Errorf ''pigsydust: manufacturer data too short (%d bytes, need >= 15)'')
        | Some adv \<Rightarrow> Inr adv)"

definition Advertisement_DeviceClass :: "Advertisement \<Rightarrow> DeviceClass" where
  "Advertisement_DeviceClass a = DeviceClassLookup (DeviceType a) (DeviceSubtype a)"

lemma ParseAdvertisement_None: "ParseAdvertisement data = None \<longleftrightarrow> length data < 15"
  by (simp add: ParseAdvertisement_def Let_def)

lemma ParseAdvertisement_fields:
  assumes "ParseAdvertisement data = Some a"
  shows "15 \<le> length data" "MeshName a = []"
    "AMAC a = [0x00, 0x21, data ! 5, data ! 4, data ! 3, data ! 2]"
    "DeviceType a = data ! 6" "DeviceSubtype a = data ! 7" "AStatusByte a = data ! 8"
    "AStatusFlags a = ParseStatusFlags (data ! 8)" "MeshAddress a = data ! 9"
    "NetworkID a = le32_of (data ! 11) (data ! 12) (data ! 13) (data ! 14)" "Raw a = data"
  using assms by (auto simp: ParseAdvertisement_def Let_def numeral_eq_Suc split: if_splits)

text \<open>The buffer as a node fills it: two leading bytes, the low MAC bytes reversed, and so on.\<close>

definition advertisement_bytes ::
    "byte list \<Rightarrow> MACAddress \<Rightarrow> byte \<Rightarrow> byte \<Rightarrow> byte \<Rightarrow> byte \<Rightarrow> byte \<Rightarrow> u32 \<Rightarrow> byte list \<Rightarrow> byte list" where
  "advertisement_bytes company mac ty st status addr gap net tail =
     take 2 company @ [mac ! 5, mac ! 4, mac ! 3, mac ! 2, ty, st, status, addr, gap,
       ucast net, ucast (drop_bit 8 net), ucast (drop_bit 16 net), ucast (drop_bit 24 net)] @ tail"

lemma ParseAdvertisement_bytes:
  assumes "length company = 2"
  shows "ParseAdvertisement (advertisement_bytes company mac ty st status addr gap net tail) =
     Some \<lparr>MeshName = [], AMAC = [0x00, 0x21, mac ! 2, mac ! 3, mac ! 4, mac ! 5],
       DeviceType = ty, DeviceSubtype = st, AStatusByte = status,
       AStatusFlags = ParseStatusFlags status, MeshAddress = addr, NetworkID = net,
       Raw = advertisement_bytes company mac ty st status addr gap net tail\<rparr>"
proof -
  obtain a b where "company = [a, b]" using assms by (auto simp: numeral_2_eq_2 length_Suc_conv)
  then show ?thesis
    using le32_bytes [of net]
    by (simp add: ParseAdvertisement_def advertisement_bytes_def Let_def numeral_eq_Suc
        del: le32_bytes)
qed

end
