(* ===== verification/Session.thy ===== *)
theory Session
  imports Notification Command
begin

section \<open>session.go, options.go, client.go: a client called by one goroutine\<close>

text \<open>
  The session state, the options, and the operations of the client as one goroutine runs
  them, with nothing running beside it. \<open>Client_Steps\<close> splits the same operations at their
  critical sections and interleaves them.

  A \<open>Transport\<close> (\<open>transport.go\<close>) is a record of its methods over a state \<open>'w\<close> of whatever
  lies below; the contexts are part of that state, so a cancelled call is an error the method
  returns. What \<open>rand.Read\<close> delivers is an argument. The outer \<open>None\<close> of \<open>Send\<close> is a panic.
\<close>

subsection \<open>The transport\<close>

record 'w Transport =
  WritePair :: "byte list \<Rightarrow> 'w \<Rightarrow> go_error option \<times> 'w"
  ReadPair :: "'w \<Rightarrow> (go_error + byte list) \<times> 'w"
  WriteCommand :: "byte list \<Rightarrow> 'w \<Rightarrow> go_error option \<times> 'w"
  SubscribeNotify :: "'w \<Rightarrow> go_error option \<times> 'w"
  GatewayMAC :: "'w \<Rightarrow> MACAddress"

subsection \<open>The session\<close>

record session =
  s_key :: "byte list"
  s_salt :: "byte list"
  s_seq :: byte
  s_gwMAC :: MACAddress
  s_loggedIn :: bool

definition nextSNO :: "session \<Rightarrow> byte list \<times> session" where
  "nextSNO s = ([s_seq s, s_salt s ! 0, s_salt s ! 1], s\<lparr>s_seq := s_seq s + 1\<rparr>)"

definition randomSalt :: "go_error + byte list \<Rightarrow> go_error + byte list" where
  "randomSalt rnd =
     (case rnd of
        Inl err \<Rightarrow> Inl (Wrapf ''pigsydust: generating salt: %w'' [err])
      | Inr out \<Rightarrow> Inr out)"

subsection \<open>Options\<close>

text \<open>A logger is \<open>None\<close> when the pointer is nil; \<open>slog.Default()\<close> is never nil. Durations are nanoseconds.\<close>

record clientOptions =
  heartbeatInterval :: int
  logger :: "nat option"

definition defaultOptions :: clientOptions where
  "defaultOptions = \<lparr>heartbeatInterval = 25 * 1000000000, logger = Some 0\<rparr>"

definition WithHeartbeatInterval :: "int \<Rightarrow> clientOptions \<Rightarrow> clientOptions" where
  "WithHeartbeatInterval d = (\<lambda>o'. o'\<lparr>heartbeatInterval := d\<rparr>)"

definition WithLogger :: "nat option \<Rightarrow> clientOptions \<Rightarrow> clientOptions" where
  "WithLogger l = (\<lambda>o'. o'\<lparr>logger := l\<rparr>)"

subsection \<open>The client\<close>

text \<open>
  \<open>hbOnce\<close> holds after the \<open>sync.Once\<close> has run; \<open>hbCancel\<close> is whether the function pointer
  is set. The heartbeat's goroutine and its channel \<open>hbDone\<close> are in \<open>Client_Steps\<close>.
\<close>

record Client =
  c_opts :: clientOptions
  c_session :: session
  hbOnce :: bool
  hbCancel :: bool
  notifyActive :: bool

definition NewClient :: "MACAddress \<Rightarrow> (clientOptions \<Rightarrow> clientOptions) list \<Rightarrow> Client" where
  "NewClient gw opts =
     (let o' = defaultOptions;
          o' = (if logger o' = None then o'\<lparr>logger := Some 0\<rparr> else o');
          o' = fold (\<lambda>opt. opt) opts o'
      in \<lparr>c_opts = o',
          c_session = \<lparr>s_key = replicate 16 0, s_salt = replicate 2 0, s_seq = 0,
                       s_gwMAC = gw, s_loggedIn = False\<rparr>,
          hbOnce = False, hbCancel = False, notifyActive = False\<rparr>)"

definition Client_GatewayMAC :: "Client \<Rightarrow> MACAddress" where
  "Client_GatewayMAC c = s_gwMAC (c_session c)"

text \<open>The critical section of \<open>Login\<close>, and the body of the \<open>sync.Once\<close>.\<close>

definition login_store :: "byte list \<Rightarrow> byte list \<Rightarrow> Client \<Rightarrow> Client" where
  "login_store sk slt c =
     c\<lparr>c_session := (c_session c)\<lparr>s_key := sk, s_salt := slt, s_seq := 0, s_loggedIn := True\<rparr>\<rparr>"

definition startHeartbeat :: "Client \<Rightarrow> Client" where
  "startHeartbeat c = (if hbOnce c then c else c\<lparr>hbOnce := True, hbCancel := True\<rparr>)"

definition Login ::
    "'w Transport \<Rightarrow> go_error + byte list \<Rightarrow> go_error + byte list \<Rightarrow> string \<Rightarrow> string \<Rightarrow>
     Client \<Rightarrow> 'w \<Rightarrow> go_error option \<times> Client \<times> 'w" where
  "Login t rndA rndSalt meshName meshPassword c w =
     (case rndA of
        Inl err \<Rightarrow> (Some (Wrapf ''pigsydust: generating randA: %w'' [err]), c, w)
      | Inr randA \<Rightarrow>
     case randomSalt rndSalt of
        Inl err \<Rightarrow> (Some err, c, w)
      | Inr slt \<Rightarrow>
     let req = BuildLoginRequest meshName meshPassword randA in
     case WritePair t req w of
        (Some err, w) \<Rightarrow> (Some (Wrapf ''%w: writing pair: %w'' [ErrLoginFailed, err]), c, w)
      | (None, w) \<Rightarrow>
     case ReadPair t w of
        (Inl err, w) \<Rightarrow> (Some (Wrapf ''%w: reading pair: %w'' [ErrLoginFailed, err]), c, w)
      | (Inr resp, w) \<Rightarrow>
     case ParseLoginResponse resp of
        Inl err \<Rightarrow> (Some (Wrapf ''%w: %w'' [ErrLoginFailed, err]), c, w)
      | Inr randB \<Rightarrow>
     let sk = DeriveSessionKey meshName meshPassword randA randB
     in (None, startHeartbeat (login_store sk slt c), w))"

definition Send :: "'w Transport \<Rightarrow> Command \<Rightarrow> Client \<Rightarrow> 'w \<Rightarrow> (go_error option \<times> Client \<times> 'w) option" where
  "Send t cmd c w =
     (if \<not> s_loggedIn (c_session c) then Some (Some ErrNotLoggedIn, c, w)
      else
        let sk = s_key (c_session c);
            gwMAC = s_gwMAC (c_session c);
            (sno, s) = nextSNO (c_session c);
            c = c\<lparr>c_session := s\<rparr>;
            nonce = CommandNonce gwMAC sno
        in case Encode cmd of
             None \<Rightarrow> None
           | Some pt \<Rightarrow>
               let packet = Encrypt sk nonce sno pt;
                   (err, w) = WriteCommand t packet w
               in Some (err, c, w))"

text \<open>
  \<open>Notifications\<close> up to the start of its goroutine: the flag, the check of the session, the
  subscription; the flag is put back on both error paths after it was set.
\<close>

definition Notifications :: "'w Transport \<Rightarrow> Client \<Rightarrow> 'w \<Rightarrow> go_error option \<times> Client \<times> 'w" where
  "Notifications t c w =
     (if notifyActive c then (Some (Errorf ''pigsydust: notifications already subscribed''), c, w)
      else
        let c = c\<lparr>notifyActive := True\<rparr>
        in if \<not> s_loggedIn (c_session c) then (Some ErrNotLoggedIn, c\<lparr>notifyActive := False\<rparr>, w)
           else
             case SubscribeNotify t w of
               (Some err, w) \<Rightarrow>
                 (Some (Wrapf ''pigsydust: subscribing notify: %w'' [err]), c\<lparr>notifyActive := False\<rparr>, w)
             | (None, w) \<Rightarrow> (None, c, w))"

text \<open>The calls of one goroutine, one after the other, until one panics.\<close>

fun send_all :: "'w Transport \<Rightarrow> Command list \<Rightarrow> Client \<Rightarrow> 'w \<Rightarrow> (go_error option list \<times> Client \<times> 'w) option" where
  "send_all t [] c w = Some ([], c, w)"
| "send_all t (cmd # cmds) c w =
     (case Send t cmd c w of
        None \<Rightarrow> None
      | Some (e, c', w') \<Rightarrow>
          map_option (\<lambda>(es, c'', w''). (e # es, c'', w'')) (send_all t cmds c' w'))"

subsection \<open>Serial numbers\<close>

fun next_snos :: "nat \<Rightarrow> session \<Rightarrow> byte list list" where
  "next_snos 0 s = []"
| "next_snos (Suc n) s = (case nextSNO s of (sno, s') \<Rightarrow> sno # next_snos n s')"

lemma next_snos_closed:
  "next_snos n s = map (\<lambda>i. [s_seq s + word_of_nat i, s_salt s ! 0, s_salt s ! 1]) [0..<n]"
proof (induction n arbitrary: s)
  case (Suc n)
  show ?case
    by (simp add: nextSNO_def Suc.IH upt_conv_Cons map_Suc_upt [symmetric] ac_simps del: upt_Suc)
qed simp

lemma byte_offset_eq_iff:
  "i < 256 \<Longrightarrow> j < 256 \<Longrightarrow> b + word_of_nat i = b + (word_of_nat j :: byte) \<longleftrightarrow> i = j"
  by (simp add: word_of_nat_eq_iff take_bit_nat_eq_self)

lemma distinct_next_snos: "n \<le> 256 \<Longrightarrow> distinct (next_snos n s)"
  using byte_offset_eq_iff [where b = 0]
  by (auto simp: next_snos_closed distinct_map inj_on_def)

lemma next_snos_wrap: "n + 256 < m \<Longrightarrow> next_snos m s ! (n + 256) = next_snos m s ! n"
  by (simp add: next_snos_closed word_of_nat_eq_iff)

lemma CommandNonce_inj:
  assumes "length sno = 3" "length sno' = 3"
  shows "CommandNonce gw sno = CommandNonce gw sno' \<longleftrightarrow> sno = sno'"
  using assms by (auto simp: CommandNonce_def length_Suc_conv numeral_eq_Suc)

subsection \<open>Login\<close>

lemma startHeartbeat_fields [simp]:
  "c_session (startHeartbeat c) = c_session c" "c_opts (startHeartbeat c) = c_opts c"
  "notifyActive (startHeartbeat c) = notifyActive c" "hbOnce (startHeartbeat c)"
  "hbCancel (startHeartbeat c) = (hbCancel c \<or> \<not> hbOnce c)"
  by (auto simp: startHeartbeat_def)

lemma login_store_fields [simp]:
  "s_key (c_session (login_store sk slt c)) = sk" "s_salt (c_session (login_store sk slt c)) = slt"
  "s_seq (c_session (login_store sk slt c)) = 0"
  "s_gwMAC (c_session (login_store sk slt c)) = s_gwMAC (c_session c)"
  "s_loggedIn (c_session (login_store sk slt c))"
  "hbOnce (login_store sk slt c) = hbOnce c" "hbCancel (login_store sk slt c) = hbCancel c"
  "notifyActive (login_store sk slt c) = notifyActive c" "c_opts (login_store sk slt c) = c_opts c"
  by (simp_all add: login_store_def)

lemmas login_splits = sum.splits option.splits prod.splits if_splits

lemma Login_error_unchanged:
  "Login t rndA rndSalt n p c w = (Some e, c', w') \<Longrightarrow> c' = c"
  by (auto simp: Login_def Let_def split: login_splits)

lemma Login_success:
  assumes "Login t rndA rndSalt n p c w = (None, c', w')"
  obtains randA slt w1 resp randB where
    "rndA = Inr randA" "rndSalt = Inr slt"
    "WritePair t (BuildLoginRequest n p randA) w = (None, w1)" "ReadPair t w1 = (Inr resp, w')"
    "ParseLoginResponse resp = Inr randB"
    "c' = startHeartbeat (login_store (DeriveSessionKey n p randA randB) slt c)"
  using assms by (auto simp: Login_def Let_def randomSalt_def split: login_splits)

lemma Login_logged_in:
  "Login t rndA rndSalt n p c w = (None, c', w') \<Longrightarrow>
   s_loggedIn (c_session c') \<and> s_gwMAC (c_session c') = s_gwMAC (c_session c)"
  by (auto simp: Login_def Let_def split: login_splits)

subsection \<open>Send\<close>

lemma Send_logged_in:
  assumes "s_loggedIn (c_session c)" "nextSNO (c_session c) = (sno, s)" "Encode cmd = Some pt"
    and "WriteCommand t (Encrypt (s_key (c_session c))
           (CommandNonce (s_gwMAC (c_session c)) sno) sno pt) w = (e, w')"
  shows "Send t cmd c w = Some (e, c\<lparr>c_session := s\<rparr>, w')"
  using assms by (simp add: Send_def Let_def)

lemma Send_None_iff:
  "Send t cmd c w = None \<longleftrightarrow> s_loggedIn (c_session c) \<and> PlaintextLen cmd < 5"
  by (auto simp: Send_def Let_def Encode_panics_iff [symmetric] split: option.splits prod.splits)

subsection \<open>Notifications\<close>

lemma Notifications_client:
  "Notifications t c w = (e, c', w') \<Longrightarrow> c' = (if e = None then c\<lparr>notifyActive := True\<rparr> else c)"
  by (auto simp: Notifications_def Let_def split: login_splits)

lemma Notifications_None:
  "Notifications t c w = (None, c', w') \<longleftrightarrow>
     \<not> notifyActive c \<and> s_loggedIn (c_session c) \<and> SubscribeNotify t w = (None, w') \<and>
     c' = c\<lparr>notifyActive := True\<rparr>"
  by (auto simp: Notifications_def Let_def split: login_splits)

subsection \<open>A login and a command\<close>

text \<open>
  What the transport sees of a login and a command after it, and what the holder of the key
  makes of the packet.
\<close>

lemma Login_Send_packet:
  assumes login: "Login tr (Inr randA) (Inr slt) name pass c w = (None, c1, w1)"
    and send: "Send tr cmd c1 w1 = Some (e, c2, w2)"
  shows "\<exists>w0 resp randB packet pt.
     WritePair tr (BuildLoginRequest name pass randA) w = (None, w0) \<and> ReadPair tr w0 = (Inr resp, w1) \<and>
     ParseLoginResponse resp = Inr randB \<and> Encode cmd = Some pt \<and>
     WriteCommand tr packet w1 = (e, w2) \<and>
     take 3 packet = [0, slt ! 0, slt ! 1] \<and>
     Decrypt (DeriveSessionKey name pass randA randB)
       (CommandNonce (s_gwMAC (c_session c)) (take 3 packet))
       (take 2 (drop 3 packet)) (drop 5 packet) = Inr pt"
proof -
  from Login_success [OF login] obtain randA' slt' w0 resp randB where
    "Inr randA = (Inr randA' :: go_error + byte list)" "Inr slt = (Inr slt' :: go_error + byte list)"
    and io: "WritePair tr (BuildLoginRequest name pass randA') w = (None, w0)" "ReadPair tr w0 = (Inr resp, w1)"
    and resp: "ParseLoginResponse resp = Inr randB"
    and "c1 = startHeartbeat (login_store (DeriveSessionKey name pass randA' randB) slt' c)"
    by metis
  then have io: "WritePair tr (BuildLoginRequest name pass randA) w = (None, w0)" "ReadPair tr w0 = (Inr resp, w1)"
    and c1: "c1 = startHeartbeat (login_store (DeriveSessionKey name pass randA randB) slt c)"
    by simp_all
  let ?sno = "[0, slt ! 0, slt ! 1]"
  let ?sk = "DeriveSessionKey name pass randA randB"
  let ?nonce = "CommandNonce (s_gwMAC (c_session c)) ?sno"
  obtain s where sno: "nextSNO (c_session c1) = (?sno, s)"
    by (simp add: c1 nextSNO_def)
  from send obtain pt where pt: "Encode cmd = Some pt"
    by (auto simp: c1 Send_def Let_def split: option.splits prod.splits)
  have wr: "WriteCommand tr (Encrypt ?sk ?nonce ?sno pt) w1 = (e, w2)"
    using send sno pt by (auto simp: c1 Send_def Let_def split: prod.splits)
  have sno3: "take 3 (Encrypt ?sk ?nonce ?sno pt) = ?sno" by (simp add: Encrypt_def Let_def)
  have "Decrypt ?sk ?nonce (take 2 (drop 3 (Encrypt ?sk ?nonce ?sno pt)))
      (drop 5 (Encrypt ?sk ?nonce ?sno pt)) = Inr pt"
    by (rule Decrypt_Encrypt) simp_all
  with io resp pt wr sno3 show ?thesis by fastforce
qed

end
