(* ===== verification/Notify_Pump.thy ===== *)
theory Notify_Pump
  imports Notification
begin

section \<open>client.go: the goroutine behind Notifications\<close>

text \<open>
  The goroutine that \<open>Client.Notifications\<close> starts: it takes raw packets from the
  transport's channel, decrypts them under the key captured at subscription, and offers the
  notifications on a channel of capacity 64. Its state holds the two channels (a list of
  waiting items and a closed flag each), whether the context is done, and the point the code
  has reached; every ready branch of a \<open>select\<close> is a step of its own, so that the relation
  has all of Go's choices. The deferred calls run last first: the flag \<open>notifyActive\<close> is
  cleared, then the channel is closed. The ghost fields record the packets taken, the
  notifications sent and those received.
\<close>

datatype pump_pc =
    PumpSelect
  | PumpOffer Notification
  | PumpUnflag
  | PumpClose
  | PumpDone
  | PumpPanicked

record pump =
  p_key :: "byte list"
  p_mac :: MACAddress
  p_logger :: "nat option"
  p_raw :: "byte list list"
  p_rawClosed :: bool
  p_ctxDone :: bool
  p_out :: "Notification list"
  p_outClosed :: bool
  p_pc :: pump_pc
  p_taken :: "byte list list"
  p_sent :: "Notification list"
  p_received :: "Notification list"

datatype pump_action =
    RawArrives "byte list"
  | RawCloses
  | ContextDone
  | CallerReceives
  | PumpMoves
  | PumpClearsFlag

definition out_capacity :: nat where
  "out_capacity = 64"

definition pump_start :: "byte list \<Rightarrow> MACAddress \<Rightarrow> nat option \<Rightarrow> pump" where
  "pump_start sk gwMAC l =
     \<lparr>p_key = sk, p_mac = gwMAC, p_logger = l, p_raw = [], p_rawClosed = False,
      p_ctxDone = False, p_out = [], p_outClosed = False, p_pc = PumpSelect,
      p_taken = [], p_sent = [], p_received = []\<rparr>"

text \<open>A packet: decrypted and offered, or logged (a nil logger panics there) and dropped.\<close>

definition pump_packet :: "pump \<Rightarrow> byte list \<Rightarrow> pump_pc" where
  "pump_packet p pkt =
     (case DecryptNotification (p_key p) (p_mac p) pkt of
        Inl err \<Rightarrow> (if p_logger p = None then PumpPanicked else PumpSelect)
      | Inr n \<Rightarrow> PumpOffer n)"

inductive pump_step :: "pump \<Rightarrow> pump_action \<Rightarrow> pump \<Rightarrow> bool" where
  raw_arrives: "\<not> p_rawClosed p \<Longrightarrow>
     pump_step p (RawArrives pkt) (p\<lparr>p_raw := p_raw p @ [pkt]\<rparr>)"
| raw_closes: "\<not> p_rawClosed p \<Longrightarrow> pump_step p RawCloses (p\<lparr>p_rawClosed := True\<rparr>)"
| context_done: "pump_step p ContextDone (p\<lparr>p_ctxDone := True\<rparr>)"
| caller_receives: "p_out p = n # ns \<Longrightarrow>
     pump_step p CallerReceives (p\<lparr>p_out := ns, p_received := p_received p @ [n]\<rparr>)"
| select_done: "p_pc p = PumpSelect \<Longrightarrow> p_ctxDone p \<Longrightarrow>
     pump_step p PumpMoves (p\<lparr>p_pc := PumpUnflag\<rparr>)"
| select_packet: "p_pc p = PumpSelect \<Longrightarrow> p_raw p = pkt # rest \<Longrightarrow>
     pump_step p PumpMoves
       (p\<lparr>p_raw := rest, p_taken := p_taken p @ [pkt], p_pc := pump_packet p pkt\<rparr>)"
| select_closed: "p_pc p = PumpSelect \<Longrightarrow> p_raw p = [] \<Longrightarrow> p_rawClosed p \<Longrightarrow>
     pump_step p PumpMoves (p\<lparr>p_pc := PumpUnflag\<rparr>)"
| offer_sent: "p_pc p = PumpOffer n \<Longrightarrow> length (p_out p) < out_capacity \<Longrightarrow>
     pump_step p PumpMoves
       (p\<lparr>p_out := p_out p @ [n], p_sent := p_sent p @ [n], p_pc := PumpSelect\<rparr>)"
| offer_done: "p_pc p = PumpOffer n \<Longrightarrow> p_ctxDone p \<Longrightarrow>
     pump_step p PumpMoves (p\<lparr>p_pc := PumpUnflag\<rparr>)"
| clears_flag: "p_pc p = PumpUnflag \<Longrightarrow> pump_step p PumpClearsFlag (p\<lparr>p_pc := PumpClose\<rparr>)"
| closes_out: "p_pc p = PumpClose \<Longrightarrow>
     pump_step p PumpMoves (p\<lparr>p_outClosed := True, p_pc := PumpDone\<rparr>)"

inductive_cases pump_stepE: "pump_step p a p'"
inductive_cases pump_clears_flagE: "pump_step p PumpClearsFlag p'"
inductive_simps pump_receives_iff: "pump_step p CallerReceives p'"

subsection \<open>What the pump delivers\<close>

text \<open>The specification: of the packets taken, those that decrypt, decrypted, in order.\<close>

fun decrypted :: "byte list \<Rightarrow> MACAddress \<Rightarrow> byte list list \<Rightarrow> Notification list" where
  "decrypted sk gw [] = []"
| "decrypted sk gw (pkt # pkts) =
     (case DecryptNotification sk gw pkt of
        Inl _ \<Rightarrow> decrypted sk gw pkts
      | Inr n \<Rightarrow> n # decrypted sk gw pkts)"

lemma decrypted_append: "decrypted sk gw (a @ b) = decrypted sk gw a @ decrypted sk gw b"
  by (induction a) (auto split: sum.split)

definition pump_spec :: "pump \<Rightarrow> Notification list" where
  "pump_spec p = decrypted (p_key p) (p_mac p) (p_taken p)"

text \<open>
  Sent is what the specification says, except for the one notification in hand, which is
  lost only when the context ends.
\<close>

definition pump_delivers :: "pump \<Rightarrow> bool" where
  "pump_delivers p \<longleftrightarrow>
     (case p_pc p of
        PumpSelect \<Rightarrow> pump_spec p = p_sent p
      | PumpOffer n \<Rightarrow> pump_spec p = p_sent p @ [n]
      | PumpPanicked \<Rightarrow> pump_spec p = p_sent p
      | _ \<Rightarrow> pump_spec p = p_sent p \<and> (p_ctxDone p \<or> p_rawClosed p \<and> p_raw p = []) \<or>
             p_ctxDone p \<and> (\<exists>n. pump_spec p = p_sent p @ [n]))"

definition pump_queue :: "pump \<Rightarrow> bool" where
  "pump_queue p \<longleftrightarrow> p_sent p = p_received p @ p_out p \<and> length (p_out p) \<le> out_capacity \<and>
     (p_outClosed p \<longleftrightarrow> p_pc p = PumpDone) \<and> (p_pc p = PumpPanicked \<longrightarrow> p_logger p = None)"

definition pump_inv :: "pump \<Rightarrow> bool" where
  "pump_inv p \<longleftrightarrow> pump_delivers p \<and> pump_queue p"

lemma pump_spec_taken [simp]:
  "pump_spec (p\<lparr>p_raw := rest, p_taken := p_taken p @ [pkt], p_pc := pc\<rparr>) =
     pump_spec p @ (case DecryptNotification (p_key p) (p_mac p) pkt of Inl _ \<Rightarrow> [] | Inr n \<Rightarrow> [n])"
  by (auto simp: pump_spec_def decrypted_append split: sum.split)

lemma pump_spec_frame:
  "p_taken p' = p_taken p \<Longrightarrow> p_key p' = p_key p \<Longrightarrow> p_mac p' = p_mac p \<Longrightarrow>
   pump_spec p' = pump_spec p"
  by (simp add: pump_spec_def)

lemma pump_step_delivers:
  assumes "pump_delivers p" "pump_step p a p'"
  shows "pump_delivers p'"
  using assms(2,1)
proof cases
  case (select_packet pkt rest)
  with assms(1) show ?thesis
    by (auto simp: pump_delivers_def pump_packet_def split: sum.splits)
qed (auto simp: pump_delivers_def pump_spec_def split: pump_pc.splits)

lemma pump_step_queue:
  assumes "pump_queue p" "pump_step p a p'"
  shows "pump_queue p'"
  using assms(2,1)
  by cases (auto simp: pump_queue_def pump_packet_def split: sum.splits)

interpretation pump: step_invariant "\<lambda>p. \<exists>sk gw l. p = pump_start sk gw l" pump_step pump_inv
proof unfold_locales
  fix p assume "\<exists>sk gw l. p = pump_start sk gw l"
  then show "pump_inv p"
    by (auto simp: pump_inv_def pump_delivers_def pump_queue_def pump_start_def pump_spec_def)
qed (auto simp: pump_inv_def intro: pump_step_delivers pump_step_queue)

abbreviation pump_reachable :: "pump \<Rightarrow> bool" where
  "pump_reachable \<equiv> reachable (\<lambda>p. \<exists>sk gw l. p = pump_start sk gw l) pump_step"

subsection \<open>The pump ends\<close>

definition pump_own :: "pump \<Rightarrow> pump_action \<Rightarrow> pump \<Rightarrow> bool" where
  "pump_own p a p' \<longleftrightarrow> a \<in> {PumpMoves, PumpClearsFlag} \<and> pump_step p a p'"

fun pc_rank :: "pump_pc \<Rightarrow> nat" where
  "pc_rank PumpSelect = 3"
| "pc_rank (PumpOffer _) = 4"
| "pc_rank PumpUnflag = 2"
| "pc_rank PumpClose = 1"
| "pc_rank PumpDone = 0"
| "pc_rank PumpPanicked = 0"

definition pump_rank :: "pump \<Rightarrow> nat" where
  "pump_rank p = 2 * length (p_raw p) + pc_rank (p_pc p)"

interpretation pump_own: step_rank pump_own pump_rank
proof unfold_locales
  fix p a p' assume "pump_own p a p'"
  then have "pump_step p a p'" "a \<in> {PumpMoves, PumpClearsFlag}" by (simp_all add: pump_own_def)
  then show "pump_rank p' < pump_rank p"
    by cases (auto simp: pump_rank_def pump_packet_def split: sum.splits)
qed

text \<open>
  With the context done the pump is never blocked before its end, and with a logger its end is
  not a panic.
\<close>

lemma pump_progress:
  assumes "p_ctxDone p" "p_pc p \<notin> {PumpDone, PumpPanicked}"
  shows "\<exists>a p'. pump_own p a p'"
  using assms
  by (cases "p_pc p")
    (auto simp: pump_own_def intro: select_done offer_done clears_flag closes_out)

definition pump_live :: "pump \<Rightarrow> bool" where
  "pump_live p \<longleftrightarrow> pump_inv p \<and> p_ctxDone p \<and> p_logger p \<noteq> None"

lemma pump_step_context:
  "pump_step p a p' \<Longrightarrow> (p_ctxDone p \<longrightarrow> p_ctxDone p') \<and> p_logger p' = p_logger p"
  by (auto elim!: pump_stepE)

interpretation pump_end: step_terminates pump_own pump_rank pump_live "\<lambda>p. p_pc p = PumpDone"
proof unfold_locales
  fix p a p' assume "pump_live p" "pump_own p a p'"
  then show "pump_live p'"
    using pump_step_context [of p a p'] by (auto simp: pump_live_def pump_own_def intro: pump.inv_step)
next
  fix p assume "pump_live p" "p_pc p \<noteq> PumpDone"
  then show "\<exists>a p'. pump_own p a p'"
    by (intro pump_progress) (auto simp: pump_live_def pump_inv_def pump_queue_def)
qed

text \<open>
  Once its context is done the pump ends: its own steps are bounded by what waits in the raw channel, and
  as long as it has not closed the channel of notifications it has a step to take, whether or not
  anyone receives. With a logger it does not end by a panic.
\<close>

lemma pump_ends:
  assumes "pump_reachable p" "p_ctxDone p" "steps pump_own p as p'"
  shows "length as \<le> 2 * length (p_raw p) + 4 \<and>
     ((\<nexists>a p''. pump_own p' a p'') \<longrightarrow> p_pc p' = PumpDone \<and> p_outClosed p' \<or> p_logger p = None)"
proof -
  have "length as \<le> pump_rank p" by (rule pump_own.steps_bounded [OF assms(3)])
  moreover have "pump_rank p \<le> 2 * length (p_raw p) + 4"
    by (cases "p_pc p") (simp_all add: pump_rank_def)
  moreover have "p_pc p' = PumpDone \<and> p_outClosed p'"
    if "\<nexists>a p''. pump_own p' a p''" "p_logger p \<noteq> None"
  proof -
    from that(2) assms(1,2) have "pump_live p" by (simp add: pump_live_def pump.reachable_inv)
    from pump_end.steps_live [OF assms(3) this] pump_end.stuck_final [OF assms(3) this that(1)]
    show ?thesis by (simp add: pump_live_def pump_inv_def pump_queue_def)
  qed
  ultimately show ?thesis by (meson order_trans)
qed

end
