(* ===== verification/Client_Steps.thy ===== *)
theory Client_Steps
  imports Session Notify_Pump
begin

section \<open>client.go: the client called by many goroutines\<close>

text \<open>
  \<open>Login\<close>, \<open>Send\<close>, \<open>Notifications\<close> and \<open>Close\<close> cut at every critical section and at every call of the
  transport, run by any number of goroutines beside the heartbeat's goroutine and the pumps.
  A goroutine's state is the point it has reached with its local variables. What
  \<open>rand.Read\<close> and the transport return is chosen freely by the step. Contexts passed to the
  transport are not visible here: a cancelled call returns an error.

  \<open>startHeartbeat\<close> runs its function under \<open>sync.Once\<close>: one goroutine at a time is inside
  (\<open>m_onceBusy\<close>), the others wait for it, and \<open>hbOnce\<close> holds when it is over. Inside, \<open>hbCancel\<close>
  and \<open>hbDone\<close> are assigned one after the other; \<open>Close\<close> reads the two without a lock, first
  \<open>hbCancel\<close>, then \<open>hbDone\<close>, and a receive from a channel that is still nil never ends
  (\<open>CloseForever\<close>).

  A panic of a goroutine is a state without a next step (the whole process ends there in Go).
  Ghost fields: the keys and salts stored by the logins, how many serial numbers were taken
  since the last of them, the packets handed to \<open>WriteCommand\<close>, each with the login and the
  index of its serial number, and the number of heartbeat reads.
\<close>

datatype serial_id = Serial (of_login: nat) (of_index: nat)

datatype goroutine =
    Idle
  | LoginRandA string string
  | LoginSalt string string "byte list"
  | LoginWrite string string "byte list" "byte list"
  | LoginRead string string "byte list" "byte list"
  | LoginStore "byte list" "byte list"
  | LoginBeat
  | BeatCancel
  | BeatDone
  | BeatGo
  | SendCheck Command
  | SendSNO Command "byte list" MACAddress
  | SendWrite serial_id "byte list"
  | NotifyFlag
  | NotifyCheck
  | NotifySubscribe "byte list" MACAddress
  | NotifyUnflag go_error
  | CloseCheck
  | CloseLoad
  | CloseWait
  | CloseForever
  | Returned "go_error option"
  | Panicked

datatype heartbeat =
    HbNone
  | HbTicker
  | HbSelect
  | HbRead
  | HbExited
  | HbPanicked

record mesh =
  m_client :: Client
  m_routine :: "nat \<Rightarrow> goroutine"
  m_hb :: heartbeat
  m_hbCancelled :: bool
  m_hbDone :: bool
  m_onceBusy :: bool
  m_pump :: "nat \<Rightarrow> pump option"
  m_logins :: "(byte list \<times> byte list) list"
  m_count :: nat
  m_written :: "(serial_id \<times> byte list) list"
  m_hbReads :: nat

datatype operation =
    OpLogin string string
  | OpSend Command
  | OpNotifications
  | OpClose

datatype mesh_action =
    Calls nat operation
  | Runs nat
  | Beats
  | Pumps nat pump_action

fun entry :: "operation \<Rightarrow> goroutine" where
  "entry (OpLogin n p) = LoginRandA n p"
| "entry (OpSend cmd) = SendCheck cmd"
| "entry OpNotifications = NotifyFlag"
| "entry OpClose = CloseCheck"

definition goto :: "nat \<Rightarrow> goroutine \<Rightarrow> mesh \<Rightarrow> mesh" where
  "goto t pc m = m\<lparr>m_routine := (m_routine m)(t := pc)\<rparr>"

definition set_notifyActive :: "bool \<Rightarrow> mesh \<Rightarrow> mesh" where
  "set_notifyActive b m = m\<lparr>m_client := (m_client m)\<lparr>notifyActive := b\<rparr>\<rparr>"

definition mesh_start :: "MACAddress \<Rightarrow> (clientOptions \<Rightarrow> clientOptions) list \<Rightarrow> mesh" where
  "mesh_start gw opts =
     \<lparr>m_client = NewClient gw opts, m_routine = (\<lambda>_. Idle), m_hb = HbNone, m_hbCancelled = False,
      m_hbDone = False, m_onceBusy = False,
      m_pump = (\<lambda>_. None), m_logins = [], m_count = 0, m_written = [], m_hbReads = 0\<rparr>"

subsection \<open>The critical sections\<close>

text \<open>\<open>Send\<close>: the check under the mutex, then the serial number and the packet.\<close>

definition send_check :: "Command \<Rightarrow> Client \<Rightarrow> goroutine" where
  "send_check cmd c =
     (if \<not> s_loggedIn (c_session c) then Returned (Some ErrNotLoggedIn)
      else SendSNO cmd (s_key (c_session c)) (s_gwMAC (c_session c)))"

definition send_packet :: "serial_id \<Rightarrow> Command \<Rightarrow> byte list \<Rightarrow> MACAddress \<Rightarrow> byte list \<Rightarrow> goroutine" where
  "send_packet i cmd sk gwMAC sno =
     (case Encode cmd of
        None \<Rightarrow> Panicked
      | Some pt \<Rightarrow> SendWrite i (Encrypt sk (CommandNonce gwMAC sno) sno pt))"

text \<open>\<open>Login\<close>: the response read, parsed, and the key derived.\<close>

definition login_response ::
    "string \<Rightarrow> string \<Rightarrow> byte list \<Rightarrow> byte list \<Rightarrow> byte list \<Rightarrow> goroutine" where
  "login_response n p randA slt resp =
     (case ParseLoginResponse resp of
        Inl err \<Rightarrow> Returned (Some (Wrapf ''%w: %w'' [ErrLoginFailed, err]))
      | Inr randB \<Rightarrow> LoginStore (DeriveSessionKey n p randA randB) slt)"

text \<open>\<open>Notifications\<close>: the check of the session after the flag is set.\<close>

definition notify_check :: "Client \<Rightarrow> goroutine" where
  "notify_check c =
     (if \<not> s_loggedIn (c_session c) then NotifyUnflag ErrNotLoggedIn
      else NotifySubscribe (s_key (c_session c)) (s_gwMAC (c_session c)))"

subsection \<open>The step relation\<close>

inductive mesh_step :: "mesh \<Rightarrow> mesh_action \<Rightarrow> mesh \<Rightarrow> bool" where
  calls: "m_routine m t = Idle \<or> m_routine m t = Returned e \<Longrightarrow>
     mesh_step m (Calls t oper) (goto t (entry oper) m)"
| randA: "m_routine m t = LoginRandA n p \<Longrightarrow> length randA = 8 \<Longrightarrow>
     mesh_step m (Runs t) (goto t (LoginSalt n p randA) m)"
| randA_err: "m_routine m t = LoginRandA n p \<Longrightarrow>
     mesh_step m (Runs t)
       (goto t (Returned (Some (Wrapf ''pigsydust: generating randA: %w'' [err]))) m)"
| salt: "m_routine m t = LoginSalt n p randA \<Longrightarrow> length slt = 2 \<Longrightarrow>
     mesh_step m (Runs t) (goto t (LoginWrite n p randA slt) m)"
| salt_err: "m_routine m t = LoginSalt n p randA \<Longrightarrow>
     mesh_step m (Runs t)
       (goto t (Returned (Some (Wrapf ''pigsydust: generating salt: %w'' [err]))) m)"
| write_pair: "m_routine m t = LoginWrite n p randA slt \<Longrightarrow>
     mesh_step m (Runs t) (goto t (LoginRead n p randA slt) m)"
| write_pair_err: "m_routine m t = LoginWrite n p randA slt \<Longrightarrow>
     mesh_step m (Runs t)
       (goto t (Returned (Some (Wrapf ''%w: writing pair: %w'' [ErrLoginFailed, err]))) m)"
| read_pair: "m_routine m t = LoginRead n p randA slt \<Longrightarrow>
     mesh_step m (Runs t) (goto t (login_response n p randA slt resp) m)"
| read_pair_err: "m_routine m t = LoginRead n p randA slt \<Longrightarrow>
     mesh_step m (Runs t)
       (goto t (Returned (Some (Wrapf ''%w: reading pair: %w'' [ErrLoginFailed, err]))) m)"
| store: "m_routine m t = LoginStore sk slt \<Longrightarrow>
     mesh_step m (Runs t) (goto t LoginBeat
       (m\<lparr>m_client := login_store sk slt (m_client m), m_logins := m_logins m @ [(sk, slt)],
          m_count := 0\<rparr>))"
| beat_over: "m_routine m t = LoginBeat \<Longrightarrow> hbOnce (m_client m) \<Longrightarrow>
     mesh_step m (Runs t) (goto t (Returned None) m)"
| beat_enters: "m_routine m t = LoginBeat \<Longrightarrow> \<not> hbOnce (m_client m) \<Longrightarrow> \<not> m_onceBusy m \<Longrightarrow>
     mesh_step m (Runs t) (goto t BeatCancel (m\<lparr>m_onceBusy := True\<rparr>))"
| beat_cancel: "m_routine m t = BeatCancel \<Longrightarrow>
     mesh_step m (Runs t) (goto t BeatDone (m\<lparr>m_client := (m_client m)\<lparr>hbCancel := True\<rparr>\<rparr>))"
| beat_done: "m_routine m t = BeatDone \<Longrightarrow>
     mesh_step m (Runs t) (goto t BeatGo (m\<lparr>m_hbDone := True\<rparr>))"
| beat_goes: "m_routine m t = BeatGo \<Longrightarrow>
     mesh_step m (Runs t) (goto t (Returned None)
       (m\<lparr>m_client := (m_client m)\<lparr>hbOnce := True\<rparr>, m_hb := HbTicker, m_onceBusy := False\<rparr>))"
| send_checks: "m_routine m t = SendCheck cmd \<Longrightarrow>
     mesh_step m (Runs t) (goto t (send_check cmd (m_client m)) m)"
| send_serial: "m_routine m t = SendSNO cmd sk gw \<Longrightarrow>
     nextSNO (c_session (m_client m)) = (sno, s) \<Longrightarrow>
     mesh_step m (Runs t)
       (goto t (send_packet (Serial (length (m_logins m)) (m_count m)) cmd sk gw sno)
         (m\<lparr>m_client := (m_client m)\<lparr>c_session := s\<rparr>, m_count := Suc (m_count m)\<rparr>))"
| send_writes: "m_routine m t = SendWrite i packet \<Longrightarrow>
     mesh_step m (Runs t) (goto t (Returned e) (m\<lparr>m_written := m_written m @ [(i, packet)]\<rparr>))"
| notify_busy: "m_routine m t = NotifyFlag \<Longrightarrow> notifyActive (m_client m) \<Longrightarrow>
     mesh_step m (Runs t)
       (goto t (Returned (Some (Errorf ''pigsydust: notifications already subscribed''))) m)"
| notify_flag: "m_routine m t = NotifyFlag \<Longrightarrow> \<not> notifyActive (m_client m) \<Longrightarrow>
     mesh_step m (Runs t) (goto t NotifyCheck (set_notifyActive True m))"
| notify_checks: "m_routine m t = NotifyCheck \<Longrightarrow>
     mesh_step m (Runs t) (goto t (notify_check (m_client m)) m)"
| notify_unflag: "m_routine m t = NotifyUnflag err \<Longrightarrow>
     mesh_step m (Runs t) (goto t (Returned (Some err)) (set_notifyActive False m))"
| notify_subscribe_err: "m_routine m t = NotifySubscribe sk gw \<Longrightarrow>
     mesh_step m (Runs t)
       (goto t (NotifyUnflag (Wrapf ''pigsydust: subscribing notify: %w'' [err])) m)"
| notify_subscribe: "m_routine m t = NotifySubscribe sk gw \<Longrightarrow> m_pump m i = None \<Longrightarrow>
     mesh_step m (Runs t) (goto t (Returned None)
       (m\<lparr>m_pump := (m_pump m)(i \<mapsto> pump_start sk gw (logger (c_opts (m_client m))))\<rparr>))"
| close_nil: "m_routine m t = CloseCheck \<Longrightarrow> \<not> hbCancel (m_client m) \<Longrightarrow>
     mesh_step m (Runs t) (goto t (Returned None) m)"
| close_cancel: "m_routine m t = CloseCheck \<Longrightarrow> hbCancel (m_client m) \<Longrightarrow>
     mesh_step m (Runs t) (goto t CloseLoad (m\<lparr>m_hbCancelled := True\<rparr>))"
| close_loads: "m_routine m t = CloseLoad \<Longrightarrow> m_hbDone m \<Longrightarrow>
     mesh_step m (Runs t) (goto t CloseWait m)"
| close_loads_nil: "m_routine m t = CloseLoad \<Longrightarrow> \<not> m_hbDone m \<Longrightarrow>
     mesh_step m (Runs t) (goto t CloseForever m)"
| close_waits: "m_routine m t = CloseWait \<Longrightarrow> m_hb m = HbExited \<Longrightarrow>
     mesh_step m (Runs t) (goto t (Returned None) m)"
| hb_ticker: "m_hb m = HbTicker \<Longrightarrow>
     mesh_step m Beats (m\<lparr>m_hb :=
       (if heartbeatInterval (c_opts (m_client m)) \<le> 0 then HbPanicked else HbSelect)\<rparr>)"
| hb_tick: "m_hb m = HbSelect \<Longrightarrow> mesh_step m Beats (m\<lparr>m_hb := HbRead\<rparr>)"
| hb_read: "m_hb m = HbRead \<Longrightarrow>
     mesh_step m Beats (m\<lparr>m_hb := HbSelect, m_hbReads := Suc (m_hbReads m)\<rparr>)"
| hb_read_nil_logger: "m_hb m = HbRead \<Longrightarrow> logger (c_opts (m_client m)) = None \<Longrightarrow>
     mesh_step m Beats (m\<lparr>m_hb := HbPanicked, m_hbReads := Suc (m_hbReads m)\<rparr>)"
| hb_exit: "m_hb m = HbSelect \<Longrightarrow> m_hbCancelled m \<Longrightarrow> mesh_step m Beats (m\<lparr>m_hb := HbExited\<rparr>)"
| pumps: "m_pump m i = Some q \<Longrightarrow> pump_step q a q' \<Longrightarrow>
     mesh_step m (Pumps i a)
       ((if a = PumpClearsFlag then set_notifyActive False m else m)
          \<lparr>m_pump := (m_pump m)(i \<mapsto> q')\<rparr>)"

inductive_cases mesh_stepE: "mesh_step m a m'"
inductive_cases mesh_runsE: "mesh_step m (Runs t) m'"
inductive_cases mesh_beatsE: "mesh_step m Beats m'"

abbreviation mesh_reachable :: "mesh \<Rightarrow> bool" where
  "mesh_reachable \<equiv> reachable (\<lambda>m. \<exists>gw opts. m = mesh_start gw opts) mesh_step"

lemma goto_fields [simp]:
  "m_client (goto t pc m) = m_client m" "m_routine (goto t pc m) = (m_routine m)(t := pc)"
  "m_hb (goto t pc m) = m_hb m" "m_hbCancelled (goto t pc m) = m_hbCancelled m"
  "m_pump (goto t pc m) = m_pump m" "m_logins (goto t pc m) = m_logins m"
  "m_count (goto t pc m) = m_count m" "m_written (goto t pc m) = m_written m"
  "m_hbReads (goto t pc m) = m_hbReads m" "m_hbDone (goto t pc m) = m_hbDone m"
  "m_onceBusy (goto t pc m) = m_onceBusy m"
  by (simp_all add: goto_def)

lemma set_notifyActive_fields [simp]:
  "m_client (set_notifyActive b m) = (m_client m)\<lparr>notifyActive := b\<rparr>"
  "m_routine (set_notifyActive b m) = m_routine m" "m_hb (set_notifyActive b m) = m_hb m"
  "m_hbCancelled (set_notifyActive b m) = m_hbCancelled m" "m_pump (set_notifyActive b m) = m_pump m"
  "m_logins (set_notifyActive b m) = m_logins m" "m_count (set_notifyActive b m) = m_count m"
  "m_written (set_notifyActive b m) = m_written m" "m_hbReads (set_notifyActive b m) = m_hbReads m"
  "m_hbDone (set_notifyActive b m) = m_hbDone m" "m_onceBusy (set_notifyActive b m) = m_onceBusy m"
  by (simp_all add: set_notifyActive_def)

lemma NewClient_fields [simp]:
  "\<not> s_loggedIn (c_session (NewClient gw opts))" "s_gwMAC (c_session (NewClient gw opts)) = gw"
  "\<not> hbOnce (NewClient gw opts)" "\<not> hbCancel (NewClient gw opts)"
  "\<not> notifyActive (NewClient gw opts)"
  by (simp_all add: NewClient_def Let_def)

lemma nextSNO_fields:
  assumes "nextSNO s = (sno, s')"
  shows "s_key s' = s_key s" "s_salt s' = s_salt s" "s_seq s' = s_seq s + 1"
    "s_gwMAC s' = s_gwMAC s" "s_loggedIn s' = s_loggedIn s"
    "sno = [s_seq s, s_salt s ! 0, s_salt s ! 1]"
  using assms by (auto simp: nextSNO_def)

end
