(* ===== verification/Client_Inv.thy ===== *)
theory Client_Inv
  imports Client_Steps
begin

section \<open>Invariants of the concurrent client\<close>

text \<open>
  Three invariants of \<open>mesh_step\<close>: what is sent and under which serial numbers, who holds the
  subscription flag, and the life of the heartbeat. Each is an interpretation of the
  contract \<open>step_invariant\<close>; most steps keep an invariant because they do not touch what it
  speaks of, which is one frame lemma per invariant.
\<close>

subsection \<open>What is sent\<close>

text \<open>The serial number with index \<open>k\<close> after login \<open>e\<close> (counted from 1).\<close>

definition serial_of :: "(byte list \<times> byte list) list \<Rightarrow> serial_id \<Rightarrow> byte list" where
  "serial_of logins i =
     (let slt = snd (logins ! (of_login i - 1)) in [word_of_nat (of_index i), slt ! 0, slt ! 1])"

definition packet_ok ::
    "MACAddress \<Rightarrow> (byte list \<times> byte list) list \<Rightarrow> nat \<Rightarrow> serial_id \<Rightarrow> byte list \<Rightarrow> bool" where
  "packet_ok gw logins n i packet \<longleftrightarrow>
     1 \<le> of_login i \<and> of_login i \<le> length logins \<and> (of_login i = length logins \<longrightarrow> of_index i < n) \<and>
     (\<exists>sk cmd pt. sk \<in> fst ` set logins \<and> Encode cmd = Some pt \<and>
        packet = Encrypt sk (CommandNonce gw (serial_of logins i)) (serial_of logins i) pt)"

definition session_ok :: "MACAddress \<Rightarrow> mesh \<Rightarrow> bool" where
  "session_ok gw m \<longleftrightarrow>
     (let s = c_session (m_client m)
      in s_gwMAC s = gw \<and> (s_loggedIn s \<longleftrightarrow> m_logins m \<noteq> []) \<and>
         (m_logins m \<noteq> [] \<longrightarrow>
            last (m_logins m) = (s_key s, s_salt s) \<and> s_seq s = word_of_nat (m_count m)))"

definition written_ok :: "MACAddress \<Rightarrow> mesh \<Rightarrow> bool" where
  "written_ok gw m \<longleftrightarrow>
     (\<forall>w \<in> set (m_written m). packet_ok gw (m_logins m) (m_count m) (fst w) (snd w)) \<and>
     distinct (map fst (m_written m))"

definition flight_ok :: "MACAddress \<Rightarrow> mesh \<Rightarrow> bool" where
  "flight_ok gw m \<longleftrightarrow>
     (\<forall>t cmd sk g. m_routine m t = SendSNO cmd sk g \<longrightarrow> g = gw \<and> sk \<in> fst ` set (m_logins m)) \<and>
     (\<forall>t i packet. m_routine m t = SendWrite i packet \<longrightarrow>
        packet_ok gw (m_logins m) (m_count m) i packet \<and> (\<forall>w \<in> set (m_written m). fst w \<noteq> i)) \<and>
     (\<forall>t t' i p p'. m_routine m t = SendWrite i p \<longrightarrow> m_routine m t' = SendWrite i p' \<longrightarrow> t = t')"

definition sends_inv :: "MACAddress \<Rightarrow> mesh \<Rightarrow> bool" where
  "sends_inv gw m \<longleftrightarrow> session_ok gw m \<and> written_ok gw m \<and> flight_ok gw m"

fun sending :: "goroutine \<Rightarrow> bool" where
  "sending (SendSNO _ _ _) = True"
| "sending (SendWrite _ _) = True"
| "sending _ = False"

text \<open>A step that touches none of this, and leaves its goroutine outside a send, keeps it.\<close>

lemma sends_frame:
  assumes "sends_inv gw m"
    and "c_session (m_client m') = c_session (m_client m)" "m_logins m' = m_logins m"
    and "m_count m' = m_count m" "m_written m' = m_written m"
    and "\<And>t. m_routine m' t = m_routine m t \<or> \<not> sending (m_routine m' t)"
  shows "sends_inv gw m'"
proof -
  have s: "m_routine m' t = SendSNO cmd sk g \<Longrightarrow> m_routine m t = SendSNO cmd sk g"
    and w: "m_routine m' t = SendWrite i p \<Longrightarrow> m_routine m t = SendWrite i p" for t cmd sk g i p
    using assms(6) [of t] by auto
  have "session_ok gw m'" "written_ok gw m'"
    using assms(1-5) by (simp_all add: sends_inv_def session_ok_def written_ok_def)
  moreover have f: "flight_ok gw m"
    using assms(1) by (simp add: sends_inv_def)
  have "g = gw \<and> sk \<in> fst ` set (m_logins m)" if "m_routine m' t = SendSNO cmd sk g" for t cmd sk g
    using f s [OF that] unfolding flight_ok_def by blast
  moreover have "packet_ok gw (m_logins m) (m_count m) i p \<and> (\<forall>w \<in> set (m_written m). fst w \<noteq> i)"
    if "m_routine m' t = SendWrite i p" for t i p
    using f w [OF that] unfolding flight_ok_def by blast
  moreover have "t = t'" if "m_routine m' t = SendWrite i p" "m_routine m' t' = SendWrite i p'" for t t' i p p'
    using f w [OF that(1)] w [OF that(2)] unfolding flight_ok_def by blast
  ultimately have "flight_ok gw m'" "session_ok gw m'" "written_ok gw m'"
    unfolding flight_ok_def assms(3-5) by blast+
  then show ?thesis by (simp add: sends_inv_def)
qed

lemma packet_ok_count: "packet_ok gw ls n i p \<Longrightarrow> packet_ok gw ls (Suc n) i p"
  by (auto simp: packet_ok_def)

text \<open>The three leading bytes of a packet are its serial number.\<close>

lemma serial_in_packet: "packet_ok gw ls n i p \<Longrightarrow> take 3 p = serial_of ls i"
  by (auto simp: packet_ok_def Encrypt_def serial_of_def Let_def)

lemma length_serial_of [simp]: "length (serial_of ls i) = 3"
  by (simp add: serial_of_def Let_def)

lemma not_fresh: "packet_ok gw ls n i p \<Longrightarrow> i \<noteq> Serial (length ls) n"
  by (auto simp: packet_ok_def)

lemma packet_ok_login:
  assumes "packet_ok gw ls n i p"
  shows "packet_ok gw (ls @ [l]) 0 i p"
proof -
  from assms have i: "1 \<le> of_login i" "of_login i \<le> length ls" by (auto simp: packet_ok_def)
  then have "of_login i - 1 < length ls" by linarith
  then have "serial_of (ls @ [l]) i = serial_of ls i" by (simp add: serial_of_def nth_append)
  with assms i show ?thesis by (auto simp: packet_ok_def)
qed

lemma sends_store:
  assumes "sends_inv gw m" "m_routine m t = LoginStore sk slt"
  shows "sends_inv gw (goto t LoginBeat
       (m\<lparr>m_client := login_store sk slt (m_client m), m_logins := m_logins m @ [(sk, slt)],
          m_count := 0\<rparr>))" (is "sends_inv gw ?m")
proof -
  have "session_ok gw ?m"
    using assms(1) by (simp add: sends_inv_def session_ok_def Let_def)
  moreover have "written_ok gw ?m"
    using assms(1) by (auto simp: sends_inv_def written_ok_def intro: packet_ok_login)
  moreover have "flight_ok gw m" using assms(1) by (simp add: sends_inv_def)
  then have "flight_ok gw ?m" unfolding flight_ok_def by (auto, blast intro: packet_ok_login)
  ultimately show ?thesis by (simp add: sends_inv_def)
qed

lemma sends_check:
  assumes "sends_inv gw m"
  shows "sends_inv gw (goto t (send_check cmd (m_client m)) m)"
proof (cases "s_loggedIn (c_session (m_client m))")
  case False
  with assms show ?thesis by (intro sends_frame [OF assms]) (simp_all add: send_check_def)
next
  case True
  with assms have "s_key (c_session (m_client m)) \<in> fst ` set (m_logins m)"
    using last_in_set [of "m_logins m"] by (force simp: sends_inv_def session_ok_def Let_def)
  with assms True show ?thesis
    by (auto simp: sends_inv_def session_ok_def written_ok_def flight_ok_def send_check_def Let_def)
qed

lemma fresh_serial:
  assumes "sends_inv gw m" "m_logins m \<noteq> []" "nextSNO (c_session (m_client m)) = (sno, s)"
  shows "serial_of (m_logins m) (Serial (length (m_logins m)) (m_count m)) = sno"
    and "w \<in> set (m_written m) \<Longrightarrow> fst w \<noteq> Serial (length (m_logins m)) (m_count m)"
    and "m_routine m t \<noteq> SendWrite (Serial (length (m_logins m)) (m_count m)) p"
proof -
  have inv: "session_ok gw m" "written_ok gw m" "flight_ok gw m"
    using assms(1) by (simp_all add: sends_inv_def)
  from inv(1) assms(2) nextSNO_fields(6) [OF assms(3)]
  show "serial_of (m_logins m) (Serial (length (m_logins m)) (m_count m)) = sno"
    by (simp add: serial_of_def session_ok_def Let_def last_conv_nth)
  show "w \<in> set (m_written m) \<Longrightarrow> fst w \<noteq> Serial (length (m_logins m)) (m_count m)"
    using inv(2) not_fresh by (auto simp: written_ok_def)
  show "m_routine m t \<noteq> SendWrite (Serial (length (m_logins m)) (m_count m)) p"
    using inv(3) not_fresh unfolding flight_ok_def by blast
qed

lemma sends_serial:
  assumes inv: "sends_inv gw m" and t: "m_routine m t = SendSNO cmd sk g"
    and sno: "nextSNO (c_session (m_client m)) = (sno, s)"
  shows "sends_inv gw
       (goto t (send_packet (Serial (length (m_logins m)) (m_count m)) cmd sk g sno)
         (m\<lparr>m_client := (m_client m)\<lparr>c_session := s\<rparr>, m_count := Suc (m_count m)\<rparr>))"
    (is "sends_inv gw ?m")
proof -
  let ?i = "(Serial (length (m_logins m)) (m_count m))"
  from inv t have g: "g = gw" "sk \<in> fst ` set (m_logins m)"
    by (auto simp: sends_inv_def flight_ok_def)
  then have ne: "m_logins m \<noteq> []" by auto
  note fresh = fresh_serial [OF inv ne sno]
  have "session_ok gw ?m"
    using inv nextSNO_fields [OF sno] by (auto simp: sends_inv_def session_ok_def Let_def)
  moreover have "written_ok gw ?m"
    using inv by (auto simp: sends_inv_def written_ok_def intro: packet_ok_count)
  moreover have "packet_ok gw (m_logins m) (Suc (m_count m)) ?i p"
    if "send_packet ?i cmd sk g sno = SendWrite i p" for i p
    using that g ne fresh(1)
    by (auto simp: packet_ok_def send_packet_def Suc_le_eq split: option.splits)
  then have "flight_ok gw ?m"
    using inv fresh(2,3)
    by (auto simp: sends_inv_def flight_ok_def send_packet_def intro: packet_ok_count
        split: option.splits)
  ultimately show ?thesis by (simp add: sends_inv_def)
qed

lemma sends_write:
  assumes inv: "sends_inv gw m" and t: "m_routine m t = SendWrite i packet"
  shows "sends_inv gw (goto t (Returned e) (m\<lparr>m_written := m_written m @ [(i, packet)]\<rparr>))"
    (is "sends_inv gw ?m")
proof -
  have ok: "flight_ok gw m" "written_ok gw m" using inv by (simp_all add: sends_inv_def)
  then have p: "packet_ok gw (m_logins m) (m_count m) i packet"
    and new: "\<forall>w \<in> set (m_written m). fst w \<noteq> i"
    using t by (auto simp: flight_ok_def)
  have "session_ok gw ?m" using inv by (simp add: sends_inv_def session_ok_def)
  moreover have "written_ok gw ?m" using ok(2) p new by (auto simp: written_ok_def)
  moreover have "flight_ok gw ?m" using ok(1) t unfolding flight_ok_def by auto
  ultimately show ?thesis by (simp add: sends_inv_def)
qed

lemma entry_not_sending [simp]: "\<not> sending (entry oper)"
  by (cases oper) auto

lemma branches_not_sending [simp]:
  "\<not> sending (login_response n p randA slt resp)" "\<not> sending (notify_check c)"
  by (auto simp: login_response_def notify_check_def split: sum.split)

interpretation sends: step_invariant "\<lambda>m. \<exists>opts. m = mesh_start gw opts" mesh_step "sends_inv gw"
  for gw
proof unfold_locales
  fix m assume "\<exists>opts. m = mesh_start gw opts"
  then show "sends_inv gw m"
    by (auto simp: mesh_start_def sends_inv_def session_ok_def written_ok_def flight_ok_def Let_def)
next
  fix m a m' assume inv: "sends_inv gw m" and "mesh_step m a m'"
  from this(2) show "sends_inv gw m'"
  proof cases
    case (store t sk slt)
    with sends_store [OF inv] show ?thesis by blast
  next
    case (send_checks t cmd)
    with sends_check [OF inv] show ?thesis by blast
  next
    case (send_serial t cmd sk g sno s)
    with sends_serial [OF inv] show ?thesis by blast
  next
    case (send_writes t i packet e)
    with sends_write [OF inv] show ?thesis by blast
  qed (auto intro!: sends_frame [OF inv] split: if_splits)
qed

subsection \<open>Who holds the subscription\<close>

text \<open>
  The flag \<open>notifyActive\<close> is held by a goroutine between setting it and starting the pump or
  clearing it, and by a pump until it clears it. At most one of them holds it.
\<close>

fun holding :: "goroutine \<Rightarrow> bool" where
  "holding NotifyCheck = True"
| "holding (NotifySubscribe _ _) = True"
| "holding (NotifyUnflag _) = True"
| "holding _ = False"

definition pump_holding :: "pump option \<Rightarrow> bool" where
  "pump_holding q = (case q of None \<Rightarrow> False | Some p \<Rightarrow> p_pc p \<noteq> PumpClose \<and> p_pc p \<noteq> PumpDone)"

definition holders :: "mesh \<Rightarrow> (nat + nat) set" where
  "holders m = Inl ` {t. holding (m_routine m t)} \<union> Inr ` {i. pump_holding (m_pump m i)}"

definition notify_inv :: "mesh \<Rightarrow> bool" where
  "notify_inv m \<longleftrightarrow>
     (if notifyActive (m_client m) then \<exists>h. holders m = {h} else holders m = {})"

lemma holders_goto [simp]:
  "holders (goto t pc m) =
     (if holding pc then insert (Inl t) (holders m) else holders m - {Inl t})"
  by (auto simp: holders_def)

lemma holders_pump [simp]:
  "holders (m\<lparr>m_pump := (m_pump m)(i \<mapsto> q)\<rparr>) =
     (if pump_holding (Some q) then insert (Inr i) (holders m) else holders m - {Inr i})"
  by (auto simp: holders_def)

lemma holders_cong:
  "m_routine m' = m_routine m \<Longrightarrow> m_pump m' = m_pump m \<Longrightarrow> holders m' = holders m"
  by (simp add: holders_def)

lemma holders_Inl [simp]: "Inl t \<in> holders m \<longleftrightarrow> holding (m_routine m t)"
  by (auto simp: holders_def)

lemma holders_Inr [simp]: "Inr i \<in> holders m \<longleftrightarrow> pump_holding (m_pump m i)"
  by (auto simp: holders_def)

lemma not_holding [simp]:
  "\<not> holding (entry oper)" "\<not> holding (login_response n p randA slt resp)"
  "\<not> holding (send_check cmd c)" "\<not> holding (send_packet i cmd sk gw sno)"
  by (cases oper; simp)
    (simp_all add: login_response_def send_check_def send_packet_def split: sum.split option.split)

lemma holding_check [simp]: "holding (notify_check c)"
  by (simp add: notify_check_def)

text \<open>A step that moves a goroutine between points outside, or inside, the subscription.\<close>

lemma notify_frame:
  assumes "notify_inv m" "notifyActive (m_client m') = notifyActive (m_client m)"
    and "holders m' = holders m"
  shows "notify_inv m'"
  using assms by (simp add: notify_inv_def)

lemma notify_same:
  assumes "notify_inv m" "m_client m' = m_client m" "m_routine m' = m_routine m" "m_pump m' = m_pump m"
  shows "notify_inv m'"
  using assms holders_cong [OF assms(3,4)] by (simp add: notify_inv_def)

lemma notify_held:
  assumes "notify_inv m" "h \<in> holders m"
  shows "notifyActive (m_client m)" "holders m = {h}"
proof -
  show on: "notifyActive (m_client m)"
    using assms unfolding notify_inv_def by (metis empty_iff)
  then obtain h' where "holders m = {h'}" using assms(1) unfolding notify_inv_def by auto
  with assms(2) show "holders m = {h}" by simp
qed

lemma notify_release:
  assumes "notify_inv m" "h \<in> holders m" "holders m' = holders m - {h}"
    and "\<not> notifyActive (m_client m')"
  shows "notify_inv m'"
  using assms by (auto simp: notify_inv_def split: if_splits)

lemma pump_step_holding:
  "pump_step q a q' \<Longrightarrow> a \<noteq> PumpClearsFlag \<Longrightarrow> pump_holding (Some q') = pump_holding (Some q)"
  by (cases rule: pump_step.cases, assumption)
    (auto simp: pump_holding_def pump_packet_def split: sum.splits)

lemma notify_goto:
  assumes "notify_inv m" "notifyActive (m_client m') = notifyActive (m_client m)"
    and "m_routine m' = (m_routine m)(t := pc)" "m_pump m' = m_pump m"
    and "holding pc = holding (m_routine m t)"
  shows "notify_inv m'"
proof (rule notify_frame [OF assms(1,2)])
  show "holders m' = holders m" using assms(3-5) by (auto simp: holders_def)
qed

interpretation notify: step_invariant "\<lambda>m. \<exists>gw opts. m = mesh_start gw opts" mesh_step notify_inv
proof unfold_locales
  fix m assume "\<exists>gw opts. m = mesh_start gw opts"
  then show "notify_inv m"
    by (auto simp: notify_inv_def holders_def pump_holding_def mesh_start_def)
next
  fix m a m' assume inv: "notify_inv m" and "mesh_step m a m'"
  from this(2) show "notify_inv m'"
  proof cases
    case (notify_flag t)
    then have "holders m = {}" using inv by (simp add: notify_inv_def)
    moreover have "holders m' = insert (Inl t) (holders m)"
      using notify_flag by (auto simp: holders_def)
    ultimately show ?thesis using notify_flag by (simp add: notify_inv_def)
  next
    case (notify_unflag t err)
    show ?thesis
      by (rule notify_release [OF inv, of "Inl t"]) (use notify_unflag in \<open>auto simp: holders_def\<close>)
  next
    case (notify_subscribe t sk gw i)
    then have "Inl t \<in> holders m" by simp
    note on = notify_held [OF inv this]
    have "holders m' = insert (Inr i) (holders m - {Inl t})"
      using notify_subscribe by (auto simp: holders_def pump_holding_def pump_start_def)
    then show ?thesis using on notify_subscribe by (simp add: notify_inv_def)
  next
    case (pumps i q a' q')
    show ?thesis
    proof (cases "a' = PumpClearsFlag")
      case True
      with pumps have "p_pc q = PumpUnflag" "p_pc q' = PumpClose"
        by (auto elim: pump_clears_flagE)
      then show ?thesis
        by (intro notify_release [OF inv, of "Inr i"])
          (use pumps True in \<open>auto simp: holders_def pump_holding_def\<close>)
    next
      case False
      with pumps have "pump_holding (Some q') = pump_holding (m_pump m i)"
        by (simp add: pump_step_holding)
      then show ?thesis
        by (intro notify_frame [OF inv]) (use pumps False in \<open>auto simp: holders_def\<close>)
    qed
  qed (auto intro: notify_goto [OF inv] notify_same [OF inv] simp: startHeartbeat_def)
qed

subsection \<open>The heartbeat\<close>

text \<open>The goroutine inside the \<open>sync.Once\<close>.\<close>

fun beating :: "goroutine \<Rightarrow> bool" where
  "beating BeatCancel = True"
| "beating BeatDone = True"
| "beating BeatGo = True"
| "beating _ = False"

definition once_inv :: "mesh \<Rightarrow> bool" where
  "once_inv m \<longleftrightarrow>
     (\<forall>t t'. beating (m_routine m t) \<and> beating (m_routine m t') \<longrightarrow> t = t') \<and>
     (m_onceBusy m \<longleftrightarrow> (\<exists>t. beating (m_routine m t)) ) \<and>
     (m_onceBusy m \<longrightarrow> \<not> hbOnce (m_client m)) \<and>
     (\<forall>t. m_routine m t \<in> {BeatDone, BeatGo} \<longrightarrow> hbCancel (m_client m)) \<and>
     (\<forall>t. m_routine m t = BeatGo \<longrightarrow> m_hbDone m) \<and>
     (m_hbDone m \<longrightarrow> hbOnce (m_client m) \<or> (\<exists>t. m_routine m t = BeatGo))"

definition loop_inv :: "mesh \<Rightarrow> bool" where
  "loop_inv m \<longleftrightarrow>
     (hbOnce (m_client m) \<longleftrightarrow> m_hb m \<noteq> HbNone) \<and>
     (hbOnce (m_client m) \<longrightarrow> hbCancel (m_client m) \<and> m_hbDone m) \<and>
     (m_hbCancelled m \<longrightarrow> hbCancel (m_client m)) \<and> (m_hb m = HbExited \<longrightarrow> m_hbCancelled m) \<and>
     (\<forall>t. m_routine m t \<in> {CloseLoad, CloseWait} \<longrightarrow> m_hbCancelled m) \<and>
     (\<forall>t. m_routine m t = CloseWait \<longrightarrow> m_hbDone m) \<and> (m_hb m = HbNone \<longrightarrow> m_hbReads m = 0)"

definition heartbeat_inv :: "mesh \<Rightarrow> bool" where
  "heartbeat_inv m \<longleftrightarrow> loop_inv m \<and> once_inv m"

lemma not_closing [simp]:
  "entry oper \<noteq> CloseWait" "login_response n p randA slt resp \<noteq> CloseWait"
  "send_check cmd c \<noteq> CloseWait" "send_packet i cmd sk gw sno \<noteq> CloseWait"
  "notify_check c \<noteq> CloseWait"
  "entry oper \<noteq> CloseLoad" "login_response n p randA slt resp \<noteq> CloseLoad"
  "send_check cmd c \<noteq> CloseLoad" "send_packet i cmd sk gw sno \<noteq> CloseLoad"
  "notify_check c \<noteq> CloseLoad"
  by (cases oper; simp add: login_response_def send_check_def send_packet_def notify_check_def
      split: sum.split option.split)+

lemma not_beating [simp]:
  "\<not> beating (entry oper)" "\<not> beating (login_response n p randA slt resp)"
  "\<not> beating (send_check cmd c)" "\<not> beating (send_packet i cmd sk gw sno)" "\<not> beating (notify_check c)"
  by (cases oper; simp add: login_response_def send_check_def send_packet_def notify_check_def
      split: sum.split option.split)+

lemma beatingD: "\<not> beating pc \<Longrightarrow> pc \<noteq> BeatCancel \<and> pc \<noteq> BeatDone \<and> pc \<noteq> BeatGo"
  by auto

text \<open>A goroutine that moves outside the \<open>sync.Once\<close> changes none of this.\<close>

lemma once_frame:
  assumes "once_inv m" "m_routine m' = (m_routine m)(t := pc)" "\<not> beating (m_routine m t)" "\<not> beating pc"
    and "hbOnce (m_client m') = hbOnce (m_client m)" "hbCancel (m_client m') = hbCancel (m_client m)"
    and "m_hbDone m' = m_hbDone m" "m_onceBusy m' = m_onceBusy m"
  shows "once_inv m'"
proof -
  have b: "beating (m_routine m' u) = beating (m_routine m u)" for u using assms(2-4) by simp
  have g: "m_routine m' u = pc' \<longleftrightarrow> m_routine m u = pc'" if "beating pc'" for u pc'
    using assms(2-4) that by (metis fun_upd_apply)
  show ?thesis
    using assms(1) unfolding once_inv_def b by (simp add: assms(5-8) g)
qed

lemma once_same:
  assumes "once_inv m" "m_routine m' = m_routine m" "hbOnce (m_client m') = hbOnce (m_client m)"
    and "hbCancel (m_client m') = hbCancel (m_client m)" "m_hbDone m' = m_hbDone m" "m_onceBusy m' = m_onceBusy m"
  shows "once_inv m'"
  using assms by (simp add: once_inv_def)

lemma once_owner:
  assumes "once_inv m" "beating (m_routine m t)"
  shows "m_onceBusy m" "\<not> hbOnce (m_client m)" "u \<noteq> t \<Longrightarrow> \<not> beating (m_routine m u)"
  using assms by (auto simp: once_inv_def)

lemma once_inside:
  assumes "once_inv m" "beating (m_routine m t)" and "m_routine m' = (m_routine m)(t := pc)" "beating pc"
    and "m_onceBusy m' = m_onceBusy m" "hbOnce (m_client m') = hbOnce (m_client m)"
    and "pc \<noteq> BeatCancel \<Longrightarrow> hbCancel (m_client m')" "pc = BeatGo \<longleftrightarrow> m_hbDone m'"
  shows "once_inv m'"
proof -
  note own = once_owner [OF assms(1,2)]
  have only: "beating (m_routine m' u) \<longleftrightarrow> u = t" for u using own(3) assms(3,4) by (cases "u = t") auto
  have "m_routine m' u = pc' \<longleftrightarrow> u = t \<and> pc = pc'" if "beating pc'" for u pc'
    using only [of u] that assms(3) by auto
  then show ?thesis
    using own assms(5-8) unfolding once_inv_def only by auto
qed

lemma once_inv_step:
  assumes inv: "once_inv m" and once: "hbOnce (m_client m) \<longrightarrow> hbCancel (m_client m)" and "mesh_step m a m'"
  shows "once_inv m'"
  using assms(3)
proof cases
  case (beat_enters t)
  with inv have "\<And>t. \<not> beating (m_routine m t)" by (simp add: once_inv_def)
  from this beatingD [OF this] inv beat_enters show ?thesis by (auto simp: once_inv_def)
next
  case (beat_cancel t)
  then have b: "beating (m_routine m t)" by simp
  have "\<not> m_hbDone m"
    using once_owner [OF inv b] inv beat_cancel unfolding once_inv_def by (metis beating.simps(3) goroutine.distinct)
  with beat_cancel show ?thesis by (intro once_inside [OF inv b, of _ BeatDone]) auto
next
  case (beat_done t)
  then have b: "beating (m_routine m t)" by simp
  have "hbCancel (m_client m)" using inv beat_done unfolding once_inv_def by blast
  with beat_done show ?thesis by (intro once_inside [OF inv b, of _ BeatGo]) auto
next
  case (beat_goes t)
  then have b: "beating (m_routine m t)" by simp
  have "\<not> beating (m_routine m' u)" for u
    using once_owner(3) [OF inv b, of u] beat_goes by (cases "u = t") auto
  moreover from this have "m_routine m' u \<notin> {BeatCancel, BeatDone, BeatGo}" for u using beatingD by blast
  ultimately show ?thesis using beat_goes inv by (auto simp: once_inv_def)
qed (auto intro: once_frame [OF inv] once_same [OF inv] simp: login_store_def)

lemma beating_inside: "once_inv m \<Longrightarrow> beating (m_routine m t) \<Longrightarrow> m_onceBusy m \<and> \<not> hbOnce (m_client m)"
  by (auto simp: once_inv_def)

lemma loop_inv_step:
  assumes inv: "loop_inv m" "once_inv m" and "mesh_step m a m'"
  shows "loop_inv m'"
  using assms(3)
proof cases
  case (beat_goes t)
  with inv(2) have "hbCancel (m_client m)" "m_hbDone m" by (auto simp: once_inv_def)
  with inv(1) beat_goes show ?thesis by (auto simp: loop_inv_def)
next
  case (beat_enters t)
  with inv(1) show ?thesis by (auto simp: loop_inv_def)
next
  case (close_cancel t)
  with inv(1) show ?thesis by (auto simp: loop_inv_def)
qed (use inv(1) in \<open>auto simp: loop_inv_def login_store_def\<close>)

interpretation heartbeat: step_invariant "\<lambda>m. \<exists>gw opts. m = mesh_start gw opts" mesh_step heartbeat_inv
proof unfold_locales
  fix m assume "\<exists>gw opts. m = mesh_start gw opts"
  then show "heartbeat_inv m" by (auto simp: heartbeat_inv_def loop_inv_def once_inv_def mesh_start_def)
next
  fix m a m' assume inv: "heartbeat_inv m" and step: "mesh_step m a m'"
  then show "heartbeat_inv m'"
    using loop_inv_step [OF _ _ step] once_inv_step [OF _ _ step] by (simp add: heartbeat_inv_def loop_inv_def)
qed

text \<open>\<open>Close\<close> returns where no loop runs.\<close>

lemma close_returns:
  assumes "mesh_step m (Runs t) m'" "m_routine m t \<in> {CloseCheck, CloseWait}"
    and "m_routine m' t = Returned e" "heartbeat_inv m"
  shows "e = None \<and> m_hb m' \<in> {HbNone, HbExited}"
  using assms(1)
  by cases (use assms(2-4) in \<open>auto simp: heartbeat_inv_def loop_inv_def\<close>)

text \<open>Once the loop has ended, nothing starts it again, no \<open>Login\<close> either.\<close>

lemma exited_step:
  assumes "mesh_step m a m'" "m_hb m = HbExited" "heartbeat_inv m"
  shows "m_hb m' = HbExited \<and> m_hbReads m' = m_hbReads m"
  using assms(1)
proof cases
  case (beat_goes t)
  with beating_inside [of m t] assms(2,3) show ?thesis by (simp add: heartbeat_inv_def loop_inv_def)
qed (use assms(2) in auto)

lemma exited_steps:
  assumes "steps mesh_step m as m'" "m_hb m = HbExited" "heartbeat_inv m"
  shows "m_hb m' = HbExited \<and> m_hbReads m' = m_hbReads m"
  using assms
proof (induction rule: steps.induct)
  case (steps_Cons m a m' as m'')
  from exited_step [OF steps_Cons.hyps(1) steps_Cons.prems] heartbeat.inv_step [OF steps_Cons.prems(2) steps_Cons.hyps(1)]
    steps_Cons.IH show ?case by simp
qed simp

lemma reachable_any_gw:
  "reachable (\<lambda>m. \<exists>opts. m = mesh_start gw opts) mesh_step m \<Longrightarrow> mesh_reachable m"
  by (induction rule: reachable.induct) (blast intro: reach_start reach_step)+

subsection \<open>One goroutine alone\<close>

text \<open>
  Run without anything between its steps, a goroutine does what the sequential operation
  does: the same result, the same client, and the same packet to the transport.
\<close>

lemma steps_1: "mesh_step m a m' \<Longrightarrow> steps mesh_step m [a] m'"
  by (rule steps_Cons [OF _ steps_Nil])

lemmas mesh_snoc = steps_snoc [where step = mesh_step]

lemma goto_goto [simp]: "goto t pc' (goto t pc m) = goto t pc' m"
  by (simp add: goto_def)

definition after_login :: "nat \<Rightarrow> byte list \<Rightarrow> byte list \<Rightarrow> mesh \<Rightarrow> mesh" where
  "after_login t sk slt m =
     goto t (Returned None)
       (m\<lparr>m_client := startHeartbeat (login_store sk slt (m_client m)),
          m_logins := m_logins m @ [(sk, slt)], m_count := 0,
          m_hb := (if hbOnce (m_client m) then m_hb m else HbTicker),
          m_hbDone := (m_hbDone m \<or> \<not> hbOnce (m_client m))\<rparr>)"

text \<open>How many steps a login is that nothing interrupts: the first one starts the heartbeat.\<close>

definition login_length :: "mesh \<Rightarrow> nat" where
  "login_length m = (if hbOnce (m_client m) then 6 else 9)"

definition after_send :: "nat \<Rightarrow> go_error option \<Rightarrow> byte list \<Rightarrow> mesh \<Rightarrow> mesh" where
  "after_send t e packet m =
     goto t (Returned e)
       (m\<lparr>m_client := (m_client m)\<lparr>c_session := snd (nextSNO (c_session (m_client m)))\<rparr>,
          m_count := Suc (m_count m),
          m_written := m_written m @ [(Serial (length (m_logins m)) (m_count m), packet)]\<rparr>)"

lemma after_login_fields [simp]:
  "m_client (after_login t sk slt m) = startHeartbeat (login_store sk slt (m_client m))"
  "m_routine (after_login t sk slt m) = (m_routine m)(t := Returned None)"
  "m_logins (after_login t sk slt m) = m_logins m @ [(sk, slt)]"
  "m_count (after_login t sk slt m) = 0" "m_written (after_login t sk slt m) = m_written m"
  "m_pump (after_login t sk slt m) = m_pump m" "m_hbCancelled (after_login t sk slt m) = m_hbCancelled m"
  "m_hb (after_login t sk slt m) = (if hbOnce (m_client m) then m_hb m else HbTicker)"
  "m_hbReads (after_login t sk slt m) = m_hbReads m"
  "m_hbDone (after_login t sk slt m) = (m_hbDone m \<or> \<not> hbOnce (m_client m))" "m_onceBusy (after_login t sk slt m) = m_onceBusy m"
  by (simp_all add: after_login_def)

lemma after_send_fields [simp]:
  "m_client (after_send t e packet m) =
     (m_client m)\<lparr>c_session := snd (nextSNO (c_session (m_client m)))\<rparr>"
  "m_routine (after_send t e packet m) = (m_routine m)(t := Returned e)"
  "m_logins (after_send t e packet m) = m_logins m"
  "m_count (after_send t e packet m) = Suc (m_count m)"
  "m_written (after_send t e packet m) =
     m_written m @ [(Serial (length (m_logins m)) (m_count m), packet)]"
  "m_pump (after_send t e packet m) = m_pump m" "m_hb (after_send t e packet m) = m_hb m"
  by (simp_all add: after_send_def)

lemma run_beat:
  assumes "m_routine m t = LoginBeat" "hbOnce (m_client m) \<or> \<not> m_onceBusy m"
  shows "steps mesh_step m (replicate (if hbOnce (m_client m) then 1 else 4) (Runs t))
     (goto t (Returned None) (m\<lparr>m_client := startHeartbeat (m_client m),
        m_hb := (if hbOnce (m_client m) then m_hb m else HbTicker),
        m_hbDone := (m_hbDone m \<or> \<not> hbOnce (m_client m))\<rparr>))"
proof (cases "hbOnce (m_client m)")
  case True
  with steps_1 [OF beat_over [OF assms(1) True]] show ?thesis by (simp add: startHeartbeat_def goto_def)
next
  case False
  define m1 where "m1 = goto t BeatCancel (m\<lparr>m_onceBusy := True\<rparr>)"
  define m2 where "m2 = goto t BeatDone (m1\<lparr>m_client := (m_client m1)\<lparr>hbCancel := True\<rparr>\<rparr>)"
  define m3 where "m3 = goto t BeatGo (m2\<lparr>m_hbDone := True\<rparr>)"
  define m4 where "m4 = goto t (Returned None)
       (m3\<lparr>m_client := (m_client m3)\<lparr>hbOnce := True\<rparr>, m_hb := HbTicker, m_onceBusy := False\<rparr>)"
  have 1: "mesh_step m (Runs t) m1" unfolding m1_def by (rule beat_enters) (use assms False in auto)
  have 2: "mesh_step m1 (Runs t) m2" unfolding m2_def by (rule beat_cancel) (simp add: m1_def)
  have 3: "mesh_step m2 (Runs t) m3" unfolding m3_def by (rule beat_done) (simp add: m2_def)
  have 4: "mesh_step m3 (Runs t) m4" unfolding m4_def by (rule beat_goes) (simp add: m3_def)
  have "m4 = goto t (Returned None) (m\<lparr>m_client := startHeartbeat (m_client m), m_hb := HbTicker, m_hbDone := True\<rparr>)"
    using assms(2) False by (cases m) (simp add: m4_def m3_def m2_def m1_def goto_def startHeartbeat_def)
  moreover have "steps mesh_step m [Runs t, Runs t, Runs t, Runs t] m4"
    using 1 2 3 4 by (blast intro: steps_Cons steps_Nil)
  ultimately show ?thesis using False by (simp add: numeral_eq_Suc)
qed

lemma run_handshake:
  assumes "m_routine m t = LoginRandA n p" "length randA = 8" "length slt = 2"
    and "ParseLoginResponse resp = Inr randB"
  shows "steps mesh_step m [Runs t, Runs t, Runs t, Runs t, Runs t]
     (let sk = DeriveSessionKey n p randA randB
      in goto t LoginBeat (m\<lparr>m_client := login_store sk slt (m_client m),
           m_logins := m_logins m @ [(sk, slt)], m_count := 0\<rparr>))"
proof -
  let ?sk = "DeriveSessionKey n p randA randB"
  define m1 where "m1 = goto t (LoginSalt n p randA) m"
  define m2 where "m2 = goto t (LoginWrite n p randA slt) m1"
  define m3 where "m3 = goto t (LoginRead n p randA slt) m2"
  define m4 where "m4 = goto t (login_response n p randA slt resp) m3"
  define m5 where "m5 = goto t LoginBeat (m4\<lparr>m_client := login_store ?sk slt (m_client m4),
      m_logins := m_logins m4 @ [(?sk, slt)], m_count := 0\<rparr>)"
  have 1: "mesh_step m (Runs t) m1" unfolding m1_def by (rule randA) (use assms in auto)
  have 2: "mesh_step m1 (Runs t) m2"
    unfolding m2_def by (rule salt) (use assms in \<open>auto simp: m1_def\<close>)
  have 3: "mesh_step m2 (Runs t) m3" unfolding m3_def by (rule write_pair) (simp add: m2_def)
  have 4: "mesh_step m3 (Runs t) m4" unfolding m4_def by (rule read_pair) (simp add: m3_def)
  have 5: "mesh_step m4 (Runs t) m5"
    unfolding m5_def by (rule store) (simp add: m4_def login_response_def assms(4))
  have "steps mesh_step m [Runs t, Runs t, Runs t, Runs t, Runs t] m5"
    using 1 2 3 4 5 by (blast intro: steps_Cons steps_Nil)
  moreover have "m5 = (let sk = ?sk in goto t LoginBeat (m\<lparr>m_client := login_store sk slt (m_client m),
      m_logins := m_logins m @ [(sk, slt)], m_count := 0\<rparr>))"
    by (simp add: m5_def m4_def m3_def m2_def m1_def goto_def Let_def)
  ultimately show ?thesis by simp
qed

lemma run_login:
  assumes "m_routine m t = LoginRandA n p" "length randA = 8" "length slt = 2"
    and "ParseLoginResponse resp = Inr randB" "hbOnce (m_client m) \<or> \<not> m_onceBusy m"
  shows "steps mesh_step m (replicate (login_length m) (Runs t))
           (after_login t (DeriveSessionKey n p randA randB) slt m)"
proof -
  let ?sk = "DeriveSessionKey n p randA randB"
  define m5 where "m5 = goto t LoginBeat (m\<lparr>m_client := login_store ?sk slt (m_client m),
      m_logins := m_logins m @ [(?sk, slt)], m_count := 0\<rparr>)"
  have "steps mesh_step m [Runs t, Runs t, Runs t, Runs t, Runs t] m5"
    using run_handshake [OF assms(1-4)] by (simp add: m5_def Let_def)
  moreover have m5: "hbOnce (m_client m5) = hbOnce (m_client m)" "m_onceBusy m5 = m_onceBusy m" "m_routine m5 t = LoginBeat"
    by (simp_all add: m5_def)
  moreover note run_beat [OF m5(3)]
  moreover have "goto t (Returned None) (m5\<lparr>m_client := startHeartbeat (m_client m5),
        m_hb := (if hbOnce (m_client m5) then m_hb m5 else HbTicker),
        m_hbDone := (m_hbDone m5 \<or> \<not> hbOnce (m_client m5))\<rparr>) = after_login t ?sk slt m"
    by (simp add: m5_def after_login_def goto_def)
  ultimately have "steps mesh_step m ([Runs t, Runs t, Runs t, Runs t, Runs t] @
      replicate (if hbOnce (m_client m) then 1 else 4) (Runs t)) (after_login t ?sk slt m)"
    using assms(5) by (auto simp del: append_Cons append_Nil intro: steps_trans)
  moreover have "[Runs t, Runs t, Runs t, Runs t, Runs t] @ replicate (if hbOnce (m_client m) then 1 else 4) (Runs t) =
      replicate (login_length m) (Runs t)"
    by (simp add: login_length_def numeral_eq_Suc)
  ultimately show ?thesis by simp
qed

lemma run_send:
  assumes "m_routine m t = SendCheck cmd" "s_loggedIn (c_session (m_client m))"
    and pt: "Encode cmd = Some pt" and sno: "fst (nextSNO (c_session (m_client m))) = sno"
    and packet: "packet = Encrypt (s_key (c_session (m_client m)))
           (CommandNonce (s_gwMAC (c_session (m_client m))) sno) sno pt"
  shows "steps mesh_step m (replicate 3 (Runs t)) (after_send t e packet m)"
proof -
  let ?c = "m_client m" and ?i = "Serial (length (m_logins m)) (m_count m)"
  obtain s where s: "nextSNO (c_session ?c) = (sno, s)" using sno by (metis prod.collapse)
  define m1 where "m1 = goto t (send_check cmd ?c) m"
  define m2 where "m2 = goto t (SendWrite ?i packet)
    (m1\<lparr>m_client := ?c\<lparr>c_session := s\<rparr>, m_count := Suc (m_count m)\<rparr>)"
  define m3 where "m3 = goto t (Returned e) (m2\<lparr>m_written := m_written m2 @ [(?i, packet)]\<rparr>)"
  have 1: "mesh_step m (Runs t) m1" unfolding m1_def by (rule send_checks [OF assms(1)])
  have "m_routine m1 t = SendSNO cmd (s_key (c_session ?c)) (s_gwMAC (c_session ?c))"
    using assms(2) by (simp add: m1_def send_check_def)
  from send_serial [OF this, of sno s] have 2: "mesh_step m1 (Runs t) m2"
    using s pt packet by (simp add: m1_def m2_def send_packet_def)
  have 3: "mesh_step m2 (Runs t) m3" unfolding m3_def by (rule send_writes) (simp add: m2_def)
  have "m3 = after_send t e packet m"
    by (simp add: m3_def m2_def m1_def after_send_def goto_def s)
  moreover have "steps mesh_step m [Runs t, Runs t, Runs t] m3"
    using 1 2 3 by (blast intro: steps_Cons steps_Nil)
  ultimately show ?thesis by (simp add: numeral_eq_Suc)
qed

lemma Send_steps:
  assumes "m_routine m t = SendCheck cmd" "Send tr cmd (m_client m) w = Some (e, c', w')"
  shows "\<exists>as m'. steps mesh_step m as m' \<and> m_routine m' t = Returned e \<and> m_client m' = c' \<and>
     (m_written m' = m_written m \<and> w' = w \<or>
      (\<exists>i packet. m_written m' = m_written m @ [(i, packet)] \<and> WriteCommand tr packet w = (e, w')))"
proof (cases "s_loggedIn (c_session (m_client m))")
  case False
  with assms(2) have "e = Some ErrNotLoggedIn" "c' = m_client m" "w' = w" by (auto simp: Send_def)
  moreover have "steps mesh_step m [Runs t] (goto t (Returned (Some ErrNotLoggedIn)) m)"
    using steps_1 [OF send_checks [OF assms(1)]] False by (simp add: send_check_def)
  moreover have "m_routine (goto t (Returned (Some ErrNotLoggedIn)) m) t = Returned (Some ErrNotLoggedIn)"
    "m_client (goto t (Returned (Some ErrNotLoggedIn)) m) = m_client m"
    "m_written (goto t (Returned (Some ErrNotLoggedIn)) m) = m_written m"
    by simp_all
  ultimately show ?thesis by blast
next
  case True
  let ?c = "m_client m"
  obtain sno s where sno: "nextSNO (c_session ?c) = (sno, s)" by (cases "nextSNO (c_session ?c)")
  from assms(2) True sno obtain pt where pt: "Encode cmd = Some pt"
    by (auto simp: Send_def split: option.splits)
  let ?p = "Encrypt (s_key (c_session ?c)) (CommandNonce (s_gwMAC (c_session ?c)) sno) sno pt"
  from assms(2) True sno pt have c': "c' = ?c\<lparr>c_session := s\<rparr>" and w: "WriteCommand tr ?p w = (e, w')"
    by (auto simp: Send_def Let_def split: prod.splits)
  have "steps mesh_step m (replicate 3 (Runs t)) (after_send t e ?p m)"
    by (rule run_send [OF assms(1) True pt]) (simp_all add: sno)
  moreover have "m_client (after_send t e ?p m) = c'" by (simp add: sno c')
  ultimately show ?thesis using w
    by (intro exI [of _ "replicate 3 (Runs t)"] exI [of _ "after_send t e ?p m"]) auto
qed

text \<open>The first three steps of \<open>Login\<close>, as far as nothing fails.\<close>

lemma login_prefix:
  assumes "m_routine m t = LoginRandA n p" "length randA = 8" "length slt = 2"
  shows "steps mesh_step m [Runs t] (goto t (LoginSalt n p randA) m)"
    and "steps mesh_step m [Runs t, Runs t] (goto t (LoginWrite n p randA slt) m)"
    and "steps mesh_step m [Runs t, Runs t, Runs t] (goto t (LoginRead n p randA slt) m)"
proof -
  show 1: "steps mesh_step m [Runs t] (goto t (LoginSalt n p randA) m)"
    by (rule steps_1) (rule randA [OF assms(1,2)])
  have "mesh_step (goto t (LoginSalt n p randA) m) (Runs t)
      (goto t (LoginWrite n p randA slt) (goto t (LoginSalt n p randA) m))"
    by (rule salt) (use assms(3) in simp_all)
  from mesh_snoc [OF 1 this] show 2: "steps mesh_step m [Runs t, Runs t] (goto t (LoginWrite n p randA slt) m)"
    by simp
  have "mesh_step (goto t (LoginWrite n p randA slt) m) (Runs t)
      (goto t (LoginRead n p randA slt) (goto t (LoginWrite n p randA slt) m))"
    by (rule write_pair) simp
  from mesh_snoc [OF 2 this] show "steps mesh_step m [Runs t, Runs t, Runs t] (goto t (LoginRead n p randA slt) m)"
    by simp
qed

lemma login_fails:
  assumes "steps mesh_step m as (goto t pc m)"
    and "mesh_step (goto t pc m) (Runs t) (goto t (Returned (Some err)) (goto t pc m))"
  shows "\<exists>as m'. steps mesh_step m as m' \<and> m_routine m' t = Returned (Some err) \<and> m_client m' = m_client m \<and>
     m_written m' = m_written m \<and> m_logins m' = m_logins m"
  using mesh_snoc [OF assms]
  by (intro exI [of _ "as @ [Runs t]"] exI [of _ "goto t (Returned (Some err)) m"]) simp

lemma Login_error_steps:
  assumes pc: "m_routine m t = LoginRandA n p"
    and login: "Login tr rndA rndSalt n p (m_client m) w = (Some err, c', w')"
    and len: "\<And>r. rndA = Inr r \<Longrightarrow> length r = 8" "\<And>r. rndSalt = Inr r \<Longrightarrow> length r = 2"
  shows "\<exists>as m'. steps mesh_step m as m' \<and> m_routine m' t = Returned (Some err) \<and> m_client m' = m_client m \<and>
     m_written m' = m_written m \<and> m_logins m' = m_logins m"
proof (cases rndA)
  case (Inl x)
  with login have "err = Wrapf ''pigsydust: generating randA: %w'' [x]" by (simp add: Login_def)
  with randA_err [OF pc, of x] show ?thesis
    by (intro exI [of _ "[Runs t]"] exI [of _ "goto t (Returned (Some err)) m"]) (simp add: steps_1)
next
  case A: (Inr randA)
  show ?thesis
  proof (cases rndSalt)
    case (Inl x)
    with login A have err: "err = Wrapf ''pigsydust: generating salt: %w'' [x]"
      by (simp add: Login_def randomSalt_def)
    have "length [0, 0 :: byte] = 2" by simp
    from login_prefix(1) [OF pc len(1) [OF A] this] show ?thesis
      unfolding err by (rule login_fails) (rule salt_err, simp)
  next
    case S: (Inr slt)
    note pre = login_prefix [OF pc len(1) [OF A] len(2) [OF S]]
    obtain e1 w1 where wp: "WritePair tr (BuildLoginRequest n p randA) w = (e1, w1)" by fastforce
    obtain r w2 where rp: "ReadPair tr w1 = (r, w2)" by fastforce
    consider x where "e1 = Some x" "err = Wrapf ''%w: writing pair: %w'' [ErrLoginFailed, x]"
      | x where "e1 = None" "r = Inl x" "err = Wrapf ''%w: reading pair: %w'' [ErrLoginFailed, x]"
      | resp x where "e1 = None" "r = Inr resp" "ParseLoginResponse resp = Inl x"
          "err = Wrapf ''%w: %w'' [ErrLoginFailed, x]"
      using login A S wp rp
      by (auto simp: Login_def randomSalt_def Let_def split: login_splits)
    then show ?thesis
    proof cases
      case 1
      show ?thesis unfolding 1(2) by (rule login_fails [OF pre(2)]) (rule write_pair_err, simp)
    next
      case 2
      show ?thesis unfolding 2(3) by (rule login_fails [OF pre(3)]) (rule read_pair_err, simp)
    next
      case 3
      have "mesh_step (goto t (LoginRead n p randA slt) m) (Runs t)
          (goto t (login_response n p randA slt resp) (goto t (LoginRead n p randA slt) m))"
        by (rule read_pair) simp
      with 3 show ?thesis by (intro login_fails [OF pre(3)]) (simp add: login_response_def)
    qed
  qed
qed

lemma Login_steps:
  assumes pc: "m_routine m t = LoginRandA n p"
    and login: "Login tr rndA rndSalt n p (m_client m) w = (e, c', w')"
    and len: "\<And>r. rndA = Inr r \<Longrightarrow> length r = 8" "\<And>r. rndSalt = Inr r \<Longrightarrow> length r = 2"
    and once: "hbOnce (m_client m) \<or> \<not> m_onceBusy m"
  shows "\<exists>as m'. steps mesh_step m as m' \<and> m_routine m' t = Returned e \<and> m_client m' = c' \<and>
     m_written m' = m_written m \<and>
     m_logins m' = m_logins m @ (if e = None then [(s_key (c_session c'), s_salt (c_session c'))] else [])"
proof (cases e)
  case None
  with login obtain randA slt w1 resp randB where
    r: "rndA = Inr randA" "rndSalt = Inr slt" "ParseLoginResponse resp = Inr randB"
    and c': "c' = startHeartbeat (login_store (DeriveSessionKey n p randA randB) slt (m_client m))"
    using Login_success by metis
  from run_login [OF pc len(1) [OF r(1)] len(2) [OF r(2)] r(3) once] None show ?thesis
    by (intro exI [of _ "replicate (login_length m) (Runs t)"]
        exI [of _ "after_login t (DeriveSessionKey n p randA randB) slt m"]) (simp add: c')
next
  case (Some err)
  have c': "c' = m_client m" using login unfolding Some by (rule Login_error_unchanged)
  from Login_error_steps [OF pc login [unfolded Some] len] Some c' show ?thesis by simp
qed

text \<open>\<open>Notifications\<close>: on success a new pump is there, with the session's key and address.\<close>

lemma subscribe_fails:
  assumes "steps mesh_step m as (goto t (NotifySubscribe sk gw) m')"
  shows "steps mesh_step m (as @ [Runs t])
     (goto t (NotifyUnflag (Wrapf ''pigsydust: subscribing notify: %w'' [x])) m')"
proof -
  have "mesh_step (goto t (NotifySubscribe sk gw) m') (Runs t)
      (goto t (NotifyUnflag (Wrapf ''pigsydust: subscribing notify: %w'' [x])) (goto t (NotifySubscribe sk gw) m'))"
    by (rule notify_subscribe_err) (simp only: goto_fields fun_upd_same)
  from mesh_snoc [OF assms this] show ?thesis by (simp only: goto_goto)
qed

lemma Notifications_steps:
  assumes pc: "m_routine m t = NotifyFlag" and free: "m_pump m i = None"
    and call: "Notifications tr (m_client m) w = (e, c', w')"
  shows "\<exists>as m'. steps mesh_step m as m' \<and> m_routine m' t = Returned e \<and> m_client m' = c' \<and>
     m_pump m' = (if e = None
       then (m_pump m)(i \<mapsto> pump_start (s_key (c_session c')) (s_gwMAC (c_session c')) (logger (c_opts c')))
       else m_pump m)"
proof (cases "notifyActive (m_client m)")
  case True
  with call have "e = Some (Errorf ''pigsydust: notifications already subscribed'')" "c' = m_client m"
    by (simp_all add: Notifications_def)
  with steps_1 [OF notify_busy [OF pc True]] show ?thesis by (intro exI conjI) (assumption, simp_all)
next
  case False
  let ?m1 = "goto t NotifyCheck (set_notifyActive True m)"
  have noop: "(m_client m)\<lparr>notifyActive := False\<rparr> = m_client m" using False by (cases "m_client m") simp
  have 1: "steps mesh_step m [Runs t] ?m1" by (rule steps_1) (rule notify_flag [OF pc False])
  have "mesh_step ?m1 (Runs t) (goto t (notify_check (m_client ?m1)) ?m1)" by (rule notify_checks) simp
  from mesh_snoc [OF 1 this] have 2: "steps mesh_step m [Runs t, Runs t]
      (goto t (notify_check (m_client ?m1)) (set_notifyActive True m))" by simp
  have unflag: "\<exists>m'. steps mesh_step m (as @ [Runs t]) m' \<and> m_routine m' t = Returned (Some err) \<and>
      m_client m' = m_client m \<and> m_pump m' = m_pump m"
    if "steps mesh_step m as (goto t (NotifyUnflag err) (set_notifyActive True m))" for as err
    by (intro exI conjI) (rule mesh_snoc [OF that notify_unflag], simp_all add: noop)
  show ?thesis
  proof (cases "s_loggedIn (c_session (m_client m))")
    case no: False
    with call False have "e = Some ErrNotLoggedIn" "c' = m_client m"
      by (simp_all add: Notifications_def Let_def noop)
    with unflag [of "[Runs t, Runs t]" ErrNotLoggedIn] 2 no show ?thesis by (auto simp: notify_check_def)
  next
    case True
    let ?sub = "NotifySubscribe (s_key (c_session (m_client m))) (s_gwMAC (c_session (m_client m)))"
    from 2 True have 3: "steps mesh_step m [Runs t, Runs t] (goto t ?sub (set_notifyActive True m))"
      by (simp add: notify_check_def)
    obtain e1 w1 where s: "SubscribeNotify tr w = (e1, w1)" by fastforce
    show ?thesis
    proof (cases e1)
      case None
      with call s False True have "e = None" "c' = (m_client m)\<lparr>notifyActive := True\<rparr>"
        by (simp_all add: Notifications_def Let_def)
      with mesh_snoc [OF 3 notify_subscribe [where t = t and i = i]] free show ?thesis
        by (intro exI conjI) (rule mesh_snoc [OF 3 notify_subscribe [where t = t and i = i]], simp_all)
    next
      case (Some x)
      let ?e = "Wrapf ''pigsydust: subscribing notify: %w'' [x]"
      from call s False True Some have "e = Some ?e" "c' = m_client m"
        by (simp_all add: Notifications_def Let_def noop)
      moreover note unflag [OF subscribe_fails [OF 3]]
      then obtain m' where "steps mesh_step m (([Runs t, Runs t] @ [Runs t]) @ [Runs t]) m'"
        "m_routine m' t = Returned (Some ?e)" "m_client m' = m_client m" "m_pump m' = m_pump m" by blast
      ultimately show ?thesis by (intro exI conjI) (assumption, simp_all)
    qed
  qed
qed

subsection \<open>A run with two commands\<close>

text \<open>A login and two commands of one goroutine, from the start: the states the examples use.\<close>

lemma reach_call:
  assumes "reachable start mesh_step m" "m_routine m t = Idle \<or> m_routine m t = Returned e"
  shows "reachable start mesh_step (goto t (entry oper) m)"
  by (rule reach_step [OF assms(1)]) (rule calls [OF assms(2)])

definition login_state :: mesh where
  "login_state = after_login 0 (DeriveSessionKey ''n'' ''p'' (replicate 8 1) (replicate 8 2)) [3, 4]
     (goto 0 (entry (OpLogin ''n'' ''p'')) (mesh_start (replicate 6 5) []))"

lemma example_response: "ParseLoginResponse (0x0D # replicate 16 2) = Inr (replicate 8 2)"
  by (simp add: ParseLoginResponse_def LoginResponseTag_def numeral_eq_Suc)

lemma login_state_reachable:
  "reachable (\<lambda>m. \<exists>opts. m = mesh_start (replicate 6 5) opts) mesh_step login_state"
proof -
  let ?m = "mesh_start (replicate 6 5) []"
  have "reachable (\<lambda>m. \<exists>opts. m = mesh_start (replicate 6 5) opts) mesh_step ?m"
    by (rule reach_start) blast
  then have "reachable (\<lambda>m. \<exists>opts. m = mesh_start (replicate 6 5) opts) mesh_step
      (goto 0 (entry (OpLogin ''n'' ''p'')) ?m)"
    by (rule reach_call) (simp add: mesh_start_def)
  moreover have "steps mesh_step (goto 0 (entry (OpLogin ''n'' ''p'')) ?m)
      (replicate (login_length (goto 0 (entry (OpLogin ''n'' ''p'')) ?m)) (Runs 0)) login_state"
    unfolding login_state_def by (rule run_login [OF _ _ _ example_response]) (simp_all add: mesh_start_def)
  ultimately show ?thesis by (auto intro: reachable_steps)
qed

definition send_state :: "Command \<Rightarrow> mesh \<Rightarrow> mesh" where
  "send_state cmd m =
     (let s = c_session (m_client m); sno = fst (nextSNO s)
      in after_send 0 None (Encrypt (s_key s) (CommandNonce (s_gwMAC s) sno) sno (the (Encode cmd)))
           (goto 0 (SendCheck cmd) m))"

lemma send_state_reachable:
  assumes "reachable start mesh_step m" "m_routine m 0 = Returned e"
    and "s_loggedIn (c_session (m_client m))" "5 \<le> PlaintextLen cmd"
  shows "reachable start mesh_step (send_state cmd m)"
proof -
  have "Encode cmd = Some (the (Encode cmd))" using assms(4) Encode_panics_iff [of cmd] by auto
  then have "steps mesh_step (goto 0 (SendCheck cmd) m) (replicate 3 (Runs 0)) (send_state cmd m)"
    unfolding send_state_def Let_def by (intro run_send) (use assms(3) in simp_all)
  moreover have "reachable start mesh_step (goto 0 (entry (OpSend cmd)) m)"
    by (rule reach_call [OF assms(1)]) (use assms(2) in simp)
  ultimately show ?thesis by (auto intro: reachable_steps)
qed

subsection \<open>A run that closes\<close>

definition closed_state :: mesh where
  "closed_state = goto 0 (Returned None)
     (login_state\<lparr>m_routine := (m_routine login_state)(0 := CloseWait), m_hbCancelled := True,
        m_hb := HbExited\<rparr>)"

lemma closed_state_fields [simp]:
  "m_routine closed_state = (\<lambda>_. Idle)(0 := Returned None)" "m_hb closed_state = HbExited"
  "hbOnce (m_client closed_state)" "m_hbReads closed_state = 0"
  by (auto simp: closed_state_def login_state_def mesh_start_def fun_eq_iff)

lemma closed_state_reachable:
  "reachable (\<lambda>m. \<exists>opts. m = mesh_start (replicate 6 5) opts) mesh_step closed_state"
proof -
  let ?start = "\<lambda>m. \<exists>opts. m = mesh_start (replicate 6 5) opts"
  have routine: "m_routine login_state = (\<lambda>_. Idle)(0 := Returned None)" "m_hb login_state = HbTicker"
    "hbCancel (m_client login_state)" "m_hbDone login_state"
    "0 < heartbeatInterval (c_opts (m_client login_state))"
    by (auto simp: login_state_def mesh_start_def NewClient_def defaultOptions_def Let_def fun_eq_iff)
  define m1 where "m1 = goto 0 CloseCheck login_state"
  define m1' where "m1' = goto 0 CloseLoad (m1\<lparr>m_hbCancelled := True\<rparr>)"
  define m2 where "m2 = goto 0 CloseWait m1'"
  define m3 where "m3 = m2\<lparr>m_hb := HbSelect\<rparr>"
  define m4 where "m4 = m3\<lparr>m_hb := HbExited\<rparr>"
  have "reachable ?start mesh_step m1"
    using reach_call [OF login_state_reachable, of 0 None OpClose] routine by (simp add: m1_def)
  then have "reachable ?start mesh_step m1'"
    by (rule reach_step) (unfold m1'_def, rule close_cancel, simp_all add: m1_def routine)
  then have "reachable ?start mesh_step m2"
    by (rule reach_step) (unfold m2_def, rule close_loads, simp_all add: m1'_def m1_def routine)
  then have "reachable ?start mesh_step m3"
    using hb_ticker [of m2] routine by (auto intro: reach_step simp: m3_def m2_def m1'_def m1_def)
  then have "reachable ?start mesh_step m4"
    by (rule reach_step) (unfold m4_def, rule hb_exit, simp_all add: m3_def m2_def m1'_def)
  then have "reachable ?start mesh_step (goto 0 (Returned None) m4)"
    by (rule reach_step) (rule close_waits, simp_all add: m4_def m3_def m2_def)
  moreover have "goto 0 (Returned None) m4 = closed_state"
    by (simp add: closed_state_def m4_def m3_def m2_def m1'_def m1_def goto_def)
  ultimately show ?thesis by simp
qed

subsection \<open>A send that is overtaken by a login\<close>

text \<open>
  Goroutine 1 has passed the check of \<open>Send\<close> when goroutine 0 logs in again; it then takes a
  serial number of the new login but encrypts with the key of the old one.
\<close>

definition overtaken_state :: "Command \<Rightarrow> byte list \<Rightarrow> mesh" where
  "overtaken_state cmd pt =
     (let old = DeriveSessionKey ''n'' ''p'' (replicate 8 1) (replicate 8 2);
          new = DeriveSessionKey ''n'' ''p'' (replicate 8 7) (replicate 8 2);
          m = after_login 0 new [3, 4]
                (goto 0 (entry (OpLogin ''n'' ''p''))
                  (goto 1 (SendSNO cmd old (replicate 6 5)) login_state));
          (sno, s) = nextSNO (c_session (m_client m));
          packet = Encrypt old (CommandNonce (replicate 6 5) sno) sno pt
      in goto 1 (Returned None) (goto 1 (SendWrite (Serial 2 0) packet)
           (m\<lparr>m_client := (m_client m)\<lparr>c_session := s\<rparr>, m_count := 1\<rparr>))
           \<lparr>m_written := [(Serial 2 0, packet)]\<rparr>)"

lemma overtaken_state_reachable:
  assumes pt: "Encode cmd = Some pt"
  shows "reachable (\<lambda>m. \<exists>opts. m = mesh_start (replicate 6 5) opts) mesh_step (overtaken_state cmd pt)"
proof -
  let ?start = "\<lambda>m. \<exists>opts. m = mesh_start (replicate 6 5) opts"
  let ?old = "DeriveSessionKey ''n'' ''p'' (replicate 8 1) (replicate 8 2)"
  let ?new = "DeriveSessionKey ''n'' ''p'' (replicate 8 7) (replicate 8 2)"
  let ?gw = "replicate 6 5 :: MACAddress"
  have login: "m_routine login_state = (\<lambda>_. Idle)(0 := Returned None)"
    "m_logins login_state = [(?old, [3, 4])]" "m_written login_state = []"
    "s_key (c_session (m_client login_state)) = ?old" "s_gwMAC (c_session (m_client login_state)) = ?gw"
    "s_loggedIn (c_session (m_client login_state))" "hbOnce (m_client login_state)"
    by (auto simp: login_state_def mesh_start_def fun_eq_iff)
  define m1 where "m1 = goto 1 (SendSNO cmd ?old ?gw) login_state"
  define m2 where "m2 = after_login 0 ?new [3, 4] (goto 0 (entry (OpLogin ''n'' ''p'')) m1)"
  obtain sno s where sno: "nextSNO (c_session (m_client m2)) = (sno, s)"
    by (cases "nextSNO (c_session (m_client m2))")
  let ?p = "Encrypt ?old (CommandNonce ?gw sno) sno pt"
  define m3 where "m3 = goto 1 (SendWrite (Serial 2 0) ?p)
      (m2\<lparr>m_client := (m_client m2)\<lparr>c_session := s\<rparr>, m_count := 1\<rparr>)"
  have "reachable ?start mesh_step (goto 1 (SendCheck cmd) login_state)"
    using reach_call [OF login_state_reachable, of 1 None "OpSend cmd"] login by simp
  from reach_step [OF this send_checks [of _ 1 cmd]] have "reachable ?start mesh_step m1"
    using login by (simp add: m1_def send_check_def)
  from reach_call [OF this, of 0 None "OpLogin ''n'' ''p''"]
  have "reachable ?start mesh_step (goto 0 (entry (OpLogin ''n'' ''p'')) m1)"
    using login by (simp add: m1_def)
  moreover have "steps mesh_step (goto 0 (entry (OpLogin ''n'' ''p'')) m1) 
      (replicate (login_length (goto 0 (entry (OpLogin ''n'' ''p'')) m1)) (Runs 0)) m2"
    unfolding m2_def by (rule run_login [OF _ _ _ example_response]) (simp_all add: m1_def login)
  ultimately have "reachable ?start mesh_step m2" by (auto intro: reachable_steps)
  moreover have "mesh_step m2 (Runs 1) m3"
  proof -
    have "m_routine m2 1 = SendSNO cmd ?old ?gw" "length (m_logins m2) = 2" "m_count m2 = 0"
      using login by (simp_all add: m2_def m1_def)
    with send_serial [OF this(1) sno] pt show ?thesis by (simp add: m3_def send_packet_def)
  qed
  ultimately have "reachable ?start mesh_step m3" by (rule reach_step)
  moreover have "mesh_step m3 (Runs 1) (goto 1 (Returned None) (m3\<lparr>m_written := m_written m3 @ [(Serial 2 0, ?p)]\<rparr>))"
    by (rule send_writes) (simp add: m3_def)
  ultimately have "reachable ?start mesh_step
      (goto 1 (Returned None) (m3\<lparr>m_written := m_written m3 @ [(Serial 2 0, ?p)]\<rparr>))"
    by (rule reach_step)
  moreover have "goto 1 (Returned None) (m3\<lparr>m_written := m_written m3 @ [(Serial 2 0, ?p)]\<rparr>) =
      overtaken_state cmd pt"
    using sno unfolding m3_def m2_def m1_def overtaken_state_def Let_def
    by (simp add: login goto_def)
  ultimately show ?thesis by simp
qed

end
