(* ===== verification/Client_End.thy ===== *)
theory Client_End
  imports Client_Inv
begin

section \<open>The calls on the client return\<close>

text \<open>
  The steps a client takes by itself: those of the goroutines \<open>T\<close> that are inside a call, and
  those of the heartbeat's goroutine short of a further tick. A rank bounds them; where none is
  left, every call has returned, the process has ended by a panic, or \<open>Close\<close> waits on the nil
  channel it has read.
\<close>

fun routine_rank :: "goroutine \<Rightarrow> nat" where
  "routine_rank (LoginRandA _ _) = 11"
| "routine_rank (LoginSalt _ _ _) = 10"
| "routine_rank (LoginWrite _ _ _ _) = 9"
| "routine_rank (LoginRead _ _ _ _) = 8"
| "routine_rank (LoginStore _ _) = 7"
| "routine_rank LoginBeat = 6"
| "routine_rank BeatCancel = 5"
| "routine_rank BeatDone = 4"
| "routine_rank BeatGo = 3"
| "routine_rank (SendCheck _) = 3"
| "routine_rank (SendSNO _ _ _) = 2"
| "routine_rank (SendWrite _ _) = 1"
| "routine_rank NotifyFlag = 4"
| "routine_rank NotifyCheck = 3"
| "routine_rank (NotifySubscribe _ _) = 2"
| "routine_rank (NotifyUnflag _) = 1"
| "routine_rank CloseCheck = 3"
| "routine_rank CloseLoad = 2"
| "routine_rank CloseWait = 1"
| "routine_rank _ = 0"

fun heartbeat_rank :: "heartbeat \<Rightarrow> nat" where
  "heartbeat_rank HbTicker = 2"
| "heartbeat_rank HbRead = 2"
| "heartbeat_rank HbSelect = 1"
| "heartbeat_rank _ = 0"

definition mesh_rank :: "nat set \<Rightarrow> mesh \<Rightarrow> nat" where
  "mesh_rank T m = (\<Sum>t\<in>T. routine_rank (m_routine m t)) + heartbeat_rank (m_hb m)"

definition mesh_own :: "nat set \<Rightarrow> mesh \<Rightarrow> mesh_action \<Rightarrow> mesh \<Rightarrow> bool" where
  "mesh_own T m a m' \<longleftrightarrow> mesh_step m a m' \<and> finite T \<and>
     ((\<exists>t\<in>T. a = Runs t) \<or> (a = Beats \<and> m_hb m' \<noteq> HbRead))"

lemma routine_rank_le: "routine_rank pc \<le> 11"
  by (cases pc) simp_all

lemma mesh_rank_le: "mesh_rank T m \<le> 11 * card T + 2"
proof -
  have "(\<Sum>t\<in>T. routine_rank (m_routine m t)) \<le> (\<Sum>t\<in>T. 11)"
    by (rule sum_mono) (rule routine_rank_le)
  moreover have "heartbeat_rank (m_hb m) \<le> 2" by (cases "m_hb m") simp_all
  ultimately show ?thesis by (simp add: mesh_rank_def mult.commute)
qed

lemma rank_of_parts [simp]:
  "routine_rank (login_response n p randA slt resp) \<le> 7"
  "routine_rank (send_check cmd c) \<le> 2" "routine_rank (send_packet i cmd sk gw sno) \<le> 1"
  "routine_rank (notify_check c) \<le> 2"
  by (simp_all add: login_response_def send_check_def send_packet_def notify_check_def
      split: sum.split option.split)

lemma rank_moved:
  assumes "finite T" "t \<in> T" "m_routine m' = (m_routine m)(t := pc)"
    and "routine_rank pc + heartbeat_rank (m_hb m') < routine_rank (m_routine m t) + heartbeat_rank (m_hb m)"
  shows "mesh_rank T m' < mesh_rank T m"
proof -
  have "(\<Sum>u\<in>T - {t}. routine_rank (m_routine m' u)) = (\<Sum>u\<in>T - {t}. routine_rank (m_routine m u))"
    using assms(3) by (intro sum.cong) auto
  with assms show ?thesis by (simp add: mesh_rank_def sum.remove [OF assms(1,2)])
qed

lemma runs_lowers:
  assumes "mesh_step m (Runs t) m'"
  shows "\<exists>pc. m_routine m' = (m_routine m)(t := pc) \<and>
     routine_rank pc + heartbeat_rank (m_hb m') < routine_rank (m_routine m t) + heartbeat_rank (m_hb m)"
  using assms
  by (cases rule: mesh_runsE) (auto simp: le_less_trans [OF rank_of_parts(1)] le_less_trans [OF rank_of_parts(2)]
    le_less_trans [OF rank_of_parts(3)] le_less_trans [OF rank_of_parts(4)])

interpretation mesh_own: step_rank "mesh_own T" "mesh_rank T" for T
proof unfold_locales
  fix m a m' assume own: "mesh_own T m a m'"
  then have fin: "finite T" and step: "mesh_step m a m'" by (simp_all add: mesh_own_def)
  show "mesh_rank T m' < mesh_rank T m"
  proof (cases "a = Beats")
    case True
    with own have "mesh_step m Beats m'" "m_hb m' \<noteq> HbRead" by (simp_all add: mesh_own_def)
    then show ?thesis by (cases rule: mesh_beatsE) (auto simp: mesh_rank_def)
  next
    case False
    with own obtain t where t: "t \<in> T" "mesh_step m (Runs t) m'" by (auto simp: mesh_own_def)
    from runs_lowers [OF t(2)] rank_moved [OF fin t(1)] show ?thesis by blast
  qed
qed

text \<open>Where the calls end: returned, ended by a panic, or waiting for ever.\<close>

fun at_rest :: "goroutine \<Rightarrow> bool" where
  "at_rest Idle = True"
| "at_rest (Returned _) = True"
| "at_rest Panicked = True"
| "at_rest CloseForever = True"
| "at_rest _ = False"

definition calls_over :: "mesh \<Rightarrow> bool" where
  "calls_over m \<longleftrightarrow>
     (\<forall>t. at_rest (m_routine m t) \<or> m_routine m t = CloseWait \<and> m_hb m = HbPanicked)"

definition mesh_live :: "nat set \<Rightarrow> mesh \<Rightarrow> bool" where
  "mesh_live T m \<longleftrightarrow> finite T \<and> (\<forall>t. t \<notin> T \<longrightarrow> m_routine m t = Idle) \<and> heartbeat_inv m"

lemma steps_inside:
  assumes "beating (m_routine m t)"
  shows "\<exists>m'. mesh_step m (Runs t) m'"
  using assms by (cases "m_routine m t") (auto intro: beat_cancel beat_done beat_goes)

text \<open>A call that has begun can go on, or the call it waits for can.\<close>

lemma mutex_progress:
  assumes "m_routine m t \<in> {LoginBeat, NotifyFlag, CloseCheck, CloseLoad}" "once_inv m"
  shows "\<exists>u m'. mesh_step m (Runs u) m'"
proof -
  have "\<exists>u m'. mesh_step m (Runs u) m'" if beat: "m_routine m t = LoginBeat"
  proof (cases "m_onceBusy m")
    case True
    with assms(2) obtain u where "beating (m_routine m u)" by (auto simp: once_inv_def)
    with steps_inside show ?thesis by blast
  next
    case False
    with beat beat_over [of m t] beat_enters [of m t] show ?thesis by blast
  qed
  then show ?thesis
    using assms(1) notify_busy [of m t] notify_flag [of m t] close_nil [of m t] close_cancel [of m t]
      close_loads [of m t] close_loads_nil [of m t] by blast
qed

lemmas call_moves = randA_err salt_err write_pair_err read_pair_err store beat_cancel beat_done beat_goes
  send_checks send_writes notify_checks notify_subscribe_err notify_unflag

lemma routine_progress:
  assumes "\<not> at_rest (m_routine m t)" "m_routine m t \<noteq> CloseWait" "once_inv m"
  shows "\<exists>u m'. mesh_step m (Runs u) m'"
proof (cases "m_routine m t \<in> {LoginBeat, NotifyFlag, CloseCheck, CloseLoad}")
  case True
  with assms(3) show ?thesis by (intro mutex_progress)
next
  case False
  obtain sno s where "nextSNO (c_session (m_client m)) = (sno, s)" by fastforce
  note serial = send_serial [OF _ this]
  from False assms(1,2) show ?thesis
    by (cases "m_routine m t"; simp) (blast dest: call_moves serial)+
qed

lemma wait_progress:
  assumes "m_routine m t = CloseWait" "m_hb m \<noteq> HbPanicked" "heartbeat_inv m"
  shows "\<exists>a m'. mesh_step m a m' \<and> (a = Beats \<and> m_hb m' \<noteq> HbRead \<or> (\<exists>u. a = Runs u))"
proof -
  from assms(1,3) have cancelled: "m_hbCancelled m" "m_hbDone m" by (auto simp: heartbeat_inv_def loop_inv_def)
  show ?thesis
  proof (cases "m_hb m")
    case HbNone
    with assms(3) have "\<not> hbOnce (m_client m)" by (simp add: heartbeat_inv_def loop_inv_def)
    with cancelled(2) assms(3) obtain u where "m_routine m u = BeatGo" by (auto simp: heartbeat_inv_def once_inv_def)
    with beat_goes show ?thesis by blast
  next
    case HbTicker
    from hb_ticker [OF this] show ?thesis by (intro exI conjI, assumption) auto
  next
    case HbRead
    from hb_read [OF this] show ?thesis by (intro exI conjI, assumption) auto
  next
    case HbSelect
    from hb_exit [OF this cancelled(1)] show ?thesis by (intro exI conjI, assumption) auto
  next
    case HbExited
    with close_waits [OF assms(1)] show ?thesis by blast
  next
    case HbPanicked
    with assms(2) show ?thesis by simp
  qed
qed

lemma runs_needs_call:
  assumes "mesh_step m (Runs t) m'"
  shows "m_routine m t \<noteq> Idle"
  using assms by (cases rule: mesh_runsE) auto

lemma idle_step:
  assumes "mesh_step m a m'" "m_routine m t = Idle" "\<forall>oper. a \<noteq> Calls t oper"
  shows "m_routine m' t = Idle"
  using assms by cases auto

lemma mesh_own_idle:
  assumes "mesh_own T m a m'" "m_routine m t = Idle"
  shows "m_routine m' t = Idle"
proof (rule idle_step [OF _ assms(2)])
  show "mesh_step m a m'" "\<forall>oper. a \<noteq> Calls t oper" using assms(1) by (auto simp: mesh_own_def)
qed

interpretation mesh_end: step_terminates "mesh_own T" "mesh_rank T" "mesh_live T" calls_over for T
proof unfold_locales
  fix m a m' assume live: "mesh_live T m" and own: "mesh_own T m a m'"
  then show "mesh_live T m'"
    using heartbeat.inv_step [of m a m'] mesh_own_idle [OF own] by (simp add: mesh_live_def mesh_own_def)
next
  fix m assume live: "mesh_live T m" and "\<not> calls_over m"
  then obtain t where t: "\<not> at_rest (m_routine m t)" "m_routine m t = CloseWait \<longrightarrow> m_hb m \<noteq> HbPanicked"
    by (auto simp: calls_over_def)
  have fin: "finite T" and out: "\<And>u. m_routine m u \<noteq> Idle \<Longrightarrow> u \<in> T" and inv: "heartbeat_inv m"
    using live by (auto simp: mesh_live_def)
  show "\<exists>a m'. mesh_own T m a m'"
  proof (cases "m_routine m t = CloseWait")
    case True
    with t inv wait_progress obtain a m' where
      "mesh_step m a m'" "a = Beats \<and> m_hb m' \<noteq> HbRead \<or> (\<exists>u. a = Runs u)" by blast
    with fin out runs_needs_call show ?thesis unfolding mesh_own_def by blast
  next
    case False
    with routine_progress [OF t(1)] inv obtain u m' where "mesh_step m (Runs u) m'"
      by (auto simp: heartbeat_inv_def)
    with fin out runs_needs_call show ?thesis unfolding mesh_own_def by blast
  qed
qed

lemma calls_return:
  assumes "mesh_reachable m" "finite T" "\<forall>t. t \<notin> T \<longrightarrow> m_routine m t = Idle"
  shows "steps (mesh_own T) m as m' \<Longrightarrow>
      length as \<le> 11 * card T + 2 \<and> ((\<nexists>a m''. mesh_own T m' a m'') \<longrightarrow> calls_over m')"
    and "\<exists>as m'. steps (mesh_own T) m as m' \<and> calls_over m'"
proof -
  have live: "mesh_live T m"
    using assms heartbeat.reachable_inv [OF assms(1)] by (simp add: mesh_live_def)
  show "length as \<le> 11 * card T + 2 \<and> ((\<nexists>a m''. mesh_own T m' a m'') \<longrightarrow> calls_over m')"
    if "steps (mesh_own T) m as m'"
    using mesh_own.steps_bounded [OF that] mesh_rank_le [of T m] mesh_end.stuck_final [OF that live] by simp
  show "\<exists>as m'. steps (mesh_own T) m as m' \<and> calls_over m'" by (rule mesh_end.reaches_final [OF live])
qed

subsection \<open>A Close beside the first Login\<close>

lemma forever_step:
  assumes "mesh_step m a m'" "m_routine m t = CloseForever"
  shows "m_routine m' t = CloseForever"
  using assms by cases auto

lemma forever_steps:
  "steps mesh_step m as m' \<Longrightarrow> m_routine m t = CloseForever \<Longrightarrow> m_routine m' t = CloseForever"
  by (induction rule: steps.induct) (auto dest: forever_step)

text \<open>
  Goroutine 0 has assigned \<open>hbCancel\<close> in its first login and not yet \<open>hbDone\<close> when goroutine 1
  closes the client; the login then returns nil.
\<close>

lemma close_waits_forever:
  "\<exists>m. mesh_reachable m \<and> m_routine m 0 = Returned None \<and> s_loggedIn (c_session (m_client m)) \<and>
     m_routine m 1 = CloseForever"
proof -
  define h0 where "h0 = goto 0 (entry (OpLogin ''n'' ''p'')) (mesh_start (replicate 6 5) [])"
  define sk where "sk = DeriveSessionKey ''n'' ''p'' (replicate 8 1) (replicate 8 2)"
  define h1 where "h1 = goto 0 LoginBeat (h0\<lparr>m_client := login_store sk [3, 4] (m_client h0),
      m_logins := m_logins h0 @ [(sk, [3, 4])], m_count := 0\<rparr>)"
  define h2 where "h2 = goto 0 BeatCancel (h1\<lparr>m_onceBusy := True\<rparr>)"
  define h3 where "h3 = goto 0 BeatDone (h2\<lparr>m_client := (m_client h2)\<lparr>hbCancel := True\<rparr>\<rparr>)"
  define h4 where "h4 = goto 1 (entry OpClose) h3"
  define h5 where "h5 = goto 1 CloseLoad (h4\<lparr>m_hbCancelled := True\<rparr>)"
  define h6 where "h6 = goto 1 CloseForever h5"
  define h7 where "h7 = goto 0 BeatGo (h6\<lparr>m_hbDone := True\<rparr>)"
  define h8 where "h8 = goto 0 (Returned None)
      (h7\<lparr>m_client := (m_client h7)\<lparr>hbOnce := True\<rparr>, m_hb := HbTicker, m_onceBusy := False\<rparr>)"
  note defs = h0_def h1_def h2_def h3_def h4_def h5_def h6_def h7_def mesh_start_def
  have "mesh_reachable (mesh_start (replicate 6 5) [])" by (rule reach_start) blast
  then have r0: "mesh_reachable h0" unfolding h0_def by (rule reach_call) (simp add: mesh_start_def)
  have "steps mesh_step h0 [Runs 0, Runs 0, Runs 0, Runs 0, Runs 0] h1"
    using run_handshake [OF _ _ _ example_response, of h0 0 "''n''" "''p''" "replicate 8 1" "[3, 4]"]
    by (simp add: h0_def h1_def sk_def Let_def)
  then have r1: "mesh_reachable h1" by (rule reachable_steps [OF _ r0])
  have r2: "mesh_reachable h2"
    by (rule reach_step [OF r1]) (unfold h2_def, rule beat_enters, simp_all add: defs)
  have r3: "mesh_reachable h3" by (rule reach_step [OF r2]) (unfold h3_def, rule beat_cancel, simp add: defs)
  have r4: "mesh_reachable h4" unfolding h4_def by (rule reach_call [OF r3]) (simp add: defs)
  have r5: "mesh_reachable h5"
    by (rule reach_step [OF r4]) (unfold h5_def, rule close_cancel, simp_all add: defs)
  have r6: "mesh_reachable h6"
    by (rule reach_step [OF r5]) (unfold h6_def, rule close_loads_nil, simp_all add: defs)
  have r7: "mesh_reachable h7" by (rule reach_step [OF r6]) (unfold h7_def, rule beat_done, simp add: defs)
  have "mesh_reachable h8" by (rule reach_step [OF r7]) (unfold h8_def, rule beat_goes, simp add: defs)
  moreover have "m_routine h8 0 = Returned None" "s_loggedIn (c_session (m_client h8))" "m_routine h8 1 = CloseForever"
    by (simp_all add: h8_def defs)
  ultimately show ?thesis by blast
qed

end
