(* ===== verification/Ble_Ids.thy ===== *)
theory Ble_Ids
  imports Protocol_Const
begin

section \<open>ble/ids.go and the UUID parser of ble/adapter_linux.go\<close>

text \<open>
  A UUID is a list of 16 bytes, most significant first. \<open>UUID_String\<close> prints it byte by byte with
  a dash before the bytes 4, 6, 8 and 10; \<open>parseUUIDString\<close> removes every dash and reads 32
  hexadecimal digits. The tinygo conversions of a UUID belong to the third-party package.
\<close>

type_synonym UUID = "byte list"

definition hex_low_digit :: "byte \<Rightarrow> char" where
  "hex_low_digit b = lower_digit (unat b)"

text \<open>The loop of \<open>String\<close>: the buffer is filled from the left, so it is the list of what is written.\<close>

fun uuid_loop :: "nat \<Rightarrow> byte list \<Rightarrow> string" where
  "uuid_loop i [] = []"
| "uuid_loop i (b # bs) =
     (if i = 4 \<or> i = 6 \<or> i = 8 \<or> i = 10 then [CHR ''-''] else []) @
     [hex_low_digit (drop_bit 4 b), hex_low_digit (b AND 0x0F)] @ uuid_loop (Suc i) bs"

definition UUID_String :: "UUID \<Rightarrow> string" where
  "UUID_String u = uuid_loop 0 u"

definition new16BitUUID :: "u16 \<Rightarrow> UUID" where
  "new16BitUUID v =
     [0x00, 0x00, hi8 v, lo8 v, 0x00, 0x00, 0x10, 0x00, 0x80, 0x00, 0x00, 0x80, 0x5F, 0x9B, 0x34, 0xFB]"

definition ServiceUUID16 :: u16 where
  [go_const]: "ServiceUUID16 = 0xCDAB"

definition ServiceUUID :: UUID where
  "ServiceUUID = new16BitUUID ServiceUUID16"

definition MeshServiceUUID :: UUID where
  "MeshServiceUUID =
     [0x00, 0x01, 0x02, 0x03, 0x04, 0x05, 0x06, 0x07, 0x08, 0x09, 0x0A, 0x0B, 0x0C, 0x0D, 0x19, 0x10]"

definition CharNotifyUUID :: UUID where
  "CharNotifyUUID =
     [0x00, 0x01, 0x02, 0x03, 0x04, 0x05, 0x06, 0x07, 0x08, 0x09, 0x0A, 0x0B, 0x0C, 0x0D, 0x19, 0x11]"

definition CharCmdUUID :: UUID where
  "CharCmdUUID =
     [0x00, 0x01, 0x02, 0x03, 0x04, 0x05, 0x06, 0x07, 0x08, 0x09, 0x0A, 0x0B, 0x0C, 0x0D, 0x19, 0x12]"

definition CharOTAUUID :: UUID where
  "CharOTAUUID =
     [0x00, 0x01, 0x02, 0x03, 0x04, 0x05, 0x06, 0x07, 0x08, 0x09, 0x0A, 0x0B, 0x0C, 0x0D, 0x19, 0x13]"

definition CharPairUUID :: UUID where
  "CharPairUUID =
     [0x00, 0x01, 0x02, 0x03, 0x04, 0x05, 0x06, 0x07, 0x08, 0x09, 0x0A, 0x0B, 0x0C, 0x0D, 0x19, 0x14]"

definition disServiceUUID :: UUID where
  "disServiceUUID = new16BitUUID 0x180A"

definition disModelNumberUUID :: UUID where
  "disModelNumberUUID = new16BitUUID 0x2A24"

definition ManufacturerIDSkytone :: u16 where
  [go_const]: "ManufacturerIDSkytone = 0x0211"

lemmas uuid_consts = ServiceUUID_def MeshServiceUUID_def CharNotifyUUID_def CharCmdUUID_def
  CharOTAUUID_def CharPairUUID_def disServiceUUID_def disModelNumberUUID_def new16BitUUID_def
  ServiceUUID16_def

subsection \<open>Parsing\<close>

text \<open>The three ranges of \<open>hexByte\<close>, on the character's byte.\<close>

definition hexByte :: "char \<Rightarrow> go_error + byte" where
  "hexByte ch =
     (let c = (of_char ch :: byte)
      in if 48 \<le> c \<and> c \<le> 57 then Inr (c - 48)
         else if 97 \<le> c \<and> c \<le> 102 then Inr (c - 97 + 10)
         else if 65 \<le> c \<and> c \<le> 70 then Inr (c - 65 + 10)
         else Inl (Errorf ''ble: bad hex %q''))"

text \<open>The loop: two digits per byte. On 32 characters the last clause is never reached.\<close>

fun uuid_bytes :: "string \<Rightarrow> go_error + byte list" where
  "uuid_bytes (h # l # cs) =
     (case hexByte h of
        Inl err \<Rightarrow> Inl err
      | Inr hi \<Rightarrow>
     case hexByte l of
        Inl err \<Rightarrow> Inl err
      | Inr lo \<Rightarrow>
     case uuid_bytes cs of
        Inl err \<Rightarrow> Inl err
      | Inr out \<Rightarrow> Inr ((push_bit 4 hi OR lo) # out))"
| "uuid_bytes cs = Inr []"

definition parseUUIDString :: "string \<Rightarrow> go_error + UUID" where
  "parseUUIDString s =
     (let s = filter (\<lambda>c. c \<noteq> CHR ''-'') s
      in if length s \<noteq> 32 then Inl (Errorf ''ble: bad uuid %q'') else uuid_bytes s)"

subsection \<open>The round trip\<close>

lemma digit_chars:
  "\<forall>n \<in> {..<16}. hexByte (lower_digit n) = Inr (word_of_nat n) \<and> lower_digit n \<noteq> CHR ''-'' \<and>
     hexByte (upper_digit n) = Inr (word_of_nat n)"
  by (simp add: lessThan_nat_numeral lessThan_Suc hexByte_def lower_digit_def upper_digit_def)

lemma hexByte_low_digit:
  assumes "unat b < 16"
  shows "hexByte (hex_low_digit b) = Inr b" "hex_low_digit b \<noteq> CHR ''-''"
  using bspec [OF digit_chars, of "unat b"] assms by (simp_all add: hex_low_digit_def)

lemma uuid_nibbles:
  fixes b :: byte
  shows "unat (drop_bit 4 b) < 16" "unat (b AND 0x0F) < 16" "push_bit 4 (drop_bit 4 b) OR (b AND 0x0F) = b"
proof -
  have m: "b AND 0x0F = take_bit 4 b" by (simp add: take_bit_eq_mask mask_numeral)
  show "unat (drop_bit 4 b) < 16"
    using unat_byte_div [of b] by (simp add: drop_bit_eq_div unat_div)
  show "unat (b AND 0x0F) < 16" 
    using take_bit_nat_less_exp [of 4 "unat b"] by (simp add: m unsigned_take_bit_eq)
  show "push_bit 4 (drop_bit 4 b) OR (b AND 0x0F) = b"
    unfolding m by (rule bit_word_eqI) (auto simp: bit_simps)
qed

lemma filter_uuid_loop:
  "filter (\<lambda>c. c \<noteq> CHR ''-'') (uuid_loop i bs) =
     concat (map (\<lambda>b. [hex_low_digit (drop_bit 4 b), hex_low_digit (b AND 0x0F)]) bs)"
  by (induction i bs rule: uuid_loop.induct) (simp_all add: hexByte_low_digit uuid_nibbles)

lemma uuid_bytes_digits:
  "uuid_bytes (concat (map (\<lambda>b. [hex_low_digit (drop_bit 4 b), hex_low_digit (b AND 0x0F)]) bs)) = Inr bs"
  by (induction bs) (simp_all add: hexByte_low_digit uuid_nibbles)

lemma length_concat_pairs: "length (concat (map (\<lambda>b. [f b, g b]) bs)) = 2 * length bs"
  by (induction bs) simp_all

lemma parseUUIDString_String: "length u = 16 \<Longrightarrow> parseUUIDString (UUID_String u) = Inr u"
  by (simp add: parseUUIDString_def UUID_String_def filter_uuid_loop uuid_bytes_digits
      length_concat_pairs)

lemma length_uuid_bytes: "uuid_bytes s = Inr u \<Longrightarrow> length u = length s div 2"
  by (induction s arbitrary: u rule: uuid_bytes.induct) (auto split: sum.splits)

lemma length_parseUUIDString: "parseUUIDString s = Inr u \<Longrightarrow> length u = 16"
  by (auto simp: parseUUIDString_def Let_def dest: length_uuid_bytes split: if_splits)

interpretation uuid: codec "\<lambda>u. length u = 16" UUID_String
  "\<lambda>s. case parseUUIDString s of Inr u \<Rightarrow> Some u | Inl _ \<Rightarrow> None"
  by unfold_locales (simp add: parseUUIDString_String)

text \<open>The characteristics the library looks for are different UUIDs.\<close>

lemma required_distinct: "distinct [CharNotifyUUID, CharCmdUUID, CharPairUUID]"
  by (simp add: uuid_consts)

lemma length_new16BitUUID [simp]: "length (new16BitUUID v) = 16"
  by (simp add: new16BitUUID_def)

lemma new16BitUUID_inj: "new16BitUUID v = new16BitUUID w \<longleftrightarrow> v = w"
proof
  assume "new16BitUUID v = new16BitUUID w"
  then have "hi8 v = hi8 w" "lo8 v = lo8 w" by (simp_all add: new16BitUUID_def)
  then have "le16_of (lo8 v) (hi8 v) = le16_of (lo8 w) (hi8 w)" by (simp only:)
  then show "v = w" by (simp only: le16_lo8_hi8)
qed simp

text \<open>The byte arrays here and the strings of \<open>protocol\<close> name the same UUIDs.\<close>

lemma uuid_strings_agree:
  "UUID_String MeshServiceUUID = MeshServiceUUID_str" "UUID_String CharNotifyUUID = CharNotifyUUID_str"
  "UUID_String CharCmdUUID = CharCmdUUID_str" "UUID_String CharOTAUUID = CharOTAUUID_str"
  "UUID_String CharPairUUID = CharPairUUID_str" "UUID_String disServiceUUID = DISServiceUUID_str"
  "UUID_String disModelNumberUUID = DISModelNumberUUID_str"
  by (simp_all add: UUID_String_def uuid_consts uuid_strings hex_low_digit_def lower_digit_def hi8_def lo8_def)

text \<open>The remaining strings are UUIDs of the same service's range, which only callers would use.\<close>

lemma dis_strings:
  "DISFirmwareRevUUID_str = UUID_String (new16BitUUID 0x2A26)"
  "DISHardwareRevUUID_str = UUID_String (new16BitUUID 0x2A27)"
  "DISManufacturerUUID_str = UUID_String (new16BitUUID 0x2A29)"
  by (simp_all add: UUID_String_def uuid_consts uuid_strings hex_low_digit_def lower_digit_def hi8_def lo8_def)

end
