(* ===== verification/Ble_Gatt.thy ===== *)
theory Ble_Gatt
  imports Session Ble_Ids "HOL-Library.Multiset"
begin

section \<open>ble/transport.go, types.go and the characteristics: the transport over GATT\<close>

text \<open>
  A characteristic (\<open>charIO\<close>) is a record of its four methods over the state \<open>'w\<close> below; a
  \<open>Connection\<close> holds three of them, each possibly nil (\<open>None\<close>), and its closer. A call through a
  nil interface is a panic, so a transport method returns \<open>None\<close> for it. A method run
  alone is what the definitions say; \<open>Transport_Lock\<close> has several goroutines call them at once. The two implementations of \<open>charIO\<close> rest on the D-Bus connection and on
  tinygo's characteristic, which are parameters.
\<close>

record 'w charIO =
  writeRequest :: "byte list \<Rightarrow> 'w \<Rightarrow> go_error option \<times> 'w"
  writeCommand :: "byte list \<Rightarrow> 'w \<Rightarrow> go_error option \<times> 'w"
  read_value :: "'w \<Rightarrow> (go_error + byte list) \<times> 'w"
  subscribe :: "'w \<Rightarrow> go_error option \<times> 'w"

text \<open>
  The closer: nil; on Linux a closure over a flag and the disconnect call; on tinygo the
  disconnect call alone. The flag of the closure is \<open>conn_closed\<close>.
\<close>

datatype 'w closer =
    NilCloser
  | FlagCloser "'w \<Rightarrow> go_error option \<times> 'w"
  | PlainCloser "'w \<Rightarrow> go_error option \<times> 'w"

record 'w Connection =
  charNotify :: "'w charIO option"
  charCmd :: "'w charIO option"
  charPair :: "'w charIO option"
  conn_gwMAC :: "byte list"
  conn_closer :: "'w closer"
  conn_closed :: bool

definition Connection_Close :: "'w Connection \<Rightarrow> 'w \<Rightarrow> go_error option \<times> 'w Connection \<times> 'w" where
  "Connection_Close c w =
     (case conn_closer c of
        NilCloser \<Rightarrow> (None, c, w)
      | FlagCloser disconnect \<Rightarrow>
          if conn_closed c then (None, c, w)
          else (case disconnect w of (e, w) \<Rightarrow> (e, c\<lparr>conn_closed := True\<rparr>, w))
      | PlainCloser disconnect \<Rightarrow> (case disconnect w of (e, w) \<Rightarrow> (e, c, w)))"

subsection \<open>Transport\<close>

definition wrap_error :: "string \<Rightarrow> go_error option \<times> 'w \<Rightarrow> go_error option \<times> 'w" where
  "wrap_error msg r = (case r of (Some err, w) \<Rightarrow> (Some (Wrapf msg [err]), w) | (None, w) \<Rightarrow> (None, w))"

definition Transport_WritePair :: "'w Connection \<Rightarrow> byte list \<Rightarrow> 'w \<Rightarrow> (go_error option \<times> 'w) option" where
  "Transport_WritePair conn data w =
     (case charPair conn of
        None \<Rightarrow> None
      | Some io \<Rightarrow> Some (wrap_error ''ble: writing CHAR_PAIR: %w'' (writeRequest io data w)))"

definition Transport_ReadPair :: "'w Connection \<Rightarrow> 'w \<Rightarrow> ((go_error + byte list) \<times> 'w) option" where
  "Transport_ReadPair conn w =
     (case charPair conn of
        None \<Rightarrow> None
      | Some io \<Rightarrow>
          (case read_value io w of
             (Inl err, w) \<Rightarrow> Some (Inl (Wrapf ''ble: reading CHAR_PAIR: %w'' [err]), w)
           | (Inr buf, w) \<Rightarrow> Some (Inr buf, w)))"

definition Transport_WriteCommand :: "'w Connection \<Rightarrow> byte list \<Rightarrow> 'w \<Rightarrow> (go_error option \<times> 'w) option" where
  "Transport_WriteCommand conn data w =
     (case charCmd conn of
        None \<Rightarrow> None
      | Some io \<Rightarrow> Some (wrap_error ''ble: writing CHAR_CMD: %w'' (writeCommand io data w)))"

definition Transport_SubscribeNotify :: "'w Connection \<Rightarrow> 'w \<Rightarrow> (go_error option \<times> 'w) option" where
  "Transport_SubscribeNotify conn w =
     (case charNotify conn of
        None \<Rightarrow> None
      | Some io \<Rightarrow>
          (case subscribe io w of
             (Some err, w) \<Rightarrow> Some (Some (Wrapf ''ble: enabling notifications: %w'' [err]), w)
           | (None, w) \<Rightarrow>
               Some (wrap_error ''ble: kicking Telink notify: %w'' (writeRequest io [0x01] w))))"

definition Transport_GatewayMAC :: "'w Connection \<Rightarrow> byte list" where
  "Transport_GatewayMAC conn = conn_gwMAC conn"

text \<open>A connection with all three characteristics is a transport of the client.\<close>

definition complete :: "'w Connection \<Rightarrow> bool" where
  "complete conn \<longleftrightarrow> charNotify conn \<noteq> None \<and> charCmd conn \<noteq> None \<and> charPair conn \<noteq> None"

definition NewTransport :: "'w Connection \<Rightarrow> 'w Transport" where
  "NewTransport conn =
     \<lparr>WritePair = (\<lambda>data w. the (Transport_WritePair conn data w)),
      ReadPair = (\<lambda>w. the (Transport_ReadPair conn w)),
      WriteCommand = (\<lambda>data w. the (Transport_WriteCommand conn data w)),
      SubscribeNotify = (\<lambda>w. the (Transport_SubscribeNotify conn w)),
      GatewayMAC = (\<lambda>_. Transport_GatewayMAC conn)\<rparr>"

lemma complete_no_panic:
  "complete conn \<longleftrightarrow>
     (\<forall>data w. Transport_WritePair conn data w \<noteq> None \<and> Transport_WriteCommand conn data w \<noteq> None \<and>
        Transport_ReadPair conn w \<noteq> None \<and> Transport_SubscribeNotify conn w \<noteq> None)"
  by (auto simp: complete_def Transport_WritePair_def Transport_WriteCommand_def
      Transport_ReadPair_def Transport_SubscribeNotify_def split: option.splits prod.splits sum.splits)

lemma wrap_error_None [simp]: "wrap_error msg r = (None, w) \<longleftrightarrow> r = (None, w)"
  by (auto simp: wrap_error_def split: prod.splits option.splits)

lemmas transport_methods = NewTransport_def Transport_WritePair_def Transport_ReadPair_def
  Transport_WriteCommand_def Transport_SubscribeNotify_def Transport_GatewayMAC_def

lemma Close_twice:
  assumes "conn_closer c = FlagCloser d" "Connection_Close c w = (e, c', w')"
  shows "Connection_Close c' w' = (None, c', w')"
  using assms by (auto simp: Connection_Close_def split: if_splits prod.splits)

subsection \<open>Linux: BlueZ over D-Bus\<close>

text \<open>
  The calls the code makes on the bus, as a record of functions: the methods of a
  characteristic and of a device, the properties, the object tree and the match rules. A
  property's value is a \<open>Variant\<close>; the type assertions of the code are matches on it.
\<close>

type_synonym ObjectPath = string

datatype Variant =
    VString string
  | VBytes "byte list"
  | VInt16 "16 word"
  | VUint16 u16
  | VBool bool
  | VData "u16 \<Rightarrow> Variant option"
  | VOther

type_synonym Properties = "string \<Rightarrow> Variant option"
type_synonym Interfaces = "string \<Rightarrow> Properties option"
type_synonym Objects = "(ObjectPath \<times> Interfaces) list"

record 'w Bus =
  WriteValue :: "ObjectPath \<Rightarrow> byte list \<Rightarrow> string \<Rightarrow> 'w \<Rightarrow> go_error option \<times> 'w"
  ReadValue :: "ObjectPath \<Rightarrow> 'w \<Rightarrow> (go_error + byte list) \<times> 'w"
  GetProperty :: "ObjectPath \<Rightarrow> string \<Rightarrow> string \<Rightarrow> 'w \<Rightarrow> (go_error + Variant) \<times> 'w"
  SetProperty :: "ObjectPath \<Rightarrow> string \<Rightarrow> string \<Rightarrow> Variant \<Rightarrow> 'w \<Rightarrow> go_error option \<times> 'w"
  GetManagedObjects :: "'w \<Rightarrow> (go_error + Objects) \<times> 'w"
  DeviceConnect :: "ObjectPath \<Rightarrow> 'w \<Rightarrow> go_error option \<times> 'w"
  DeviceDisconnect :: "ObjectPath \<Rightarrow> 'w \<Rightarrow> go_error option \<times> 'w"
  SetDiscoveryFilter :: "ObjectPath \<Rightarrow> string \<Rightarrow> string list \<Rightarrow> 'w \<Rightarrow> go_error option \<times> 'w"
  StartDiscovery :: "ObjectPath \<Rightarrow> 'w \<Rightarrow> go_error option \<times> 'w"
  StopDiscovery :: "ObjectPath \<Rightarrow> 'w \<Rightarrow> go_error option \<times> 'w"
  AddMatch :: "string \<Rightarrow> 'w \<Rightarrow> go_error option \<times> 'w"
  RemoveMatch :: "string \<Rightarrow> 'w \<Rightarrow> go_error option \<times> 'w"
  AddSignal :: "'w \<Rightarrow> 'w"
  RemoveSignal :: "'w \<Rightarrow> 'w"

definition bluezBusName :: string where [go_const]: "bluezBusName = ''org.bluez''"
definition bluezAdapterIface :: string where [go_const]: "bluezAdapterIface = ''org.bluez.Adapter1''"
definition bluezDeviceIface :: string where [go_const]: "bluezDeviceIface = ''org.bluez.Device1''"
definition bluezGattCharIface :: string where
  [go_const]: "bluezGattCharIface = ''org.bluez.GattCharacteristic1''"
definition dbusObjectManager :: string where
  [go_const]: "dbusObjectManager = ''org.freedesktop.DBus.ObjectManager''"
definition dbusProperties :: string where
  [go_const]: "dbusProperties = ''org.freedesktop.DBus.Properties''"
definition propPropertiesChang :: string where
  "propPropertiesChang = dbusProperties @ ''.PropertiesChanged''"
definition propInterfacesAdded :: string where
  "propInterfacesAdded = dbusObjectManager @ ''.InterfacesAdded''"

text \<open>
  The documented behaviour of the bus that releasing resources rests on: a match rule is there
  once more after \<open>AddMatch\<close> succeeded, once less after \<open>RemoveMatch\<close>, and nothing else the
  code calls changes the rules; a signal channel is registered and unregistered alike. \<open>rules\<close>
  and \<open>chans\<close> read the state of the bus.
\<close>

definition bus_laws :: "'w Bus \<Rightarrow> ('w \<Rightarrow> string multiset) \<Rightarrow> ('w \<Rightarrow> nat) \<Rightarrow> bool" where
  "bus_laws bus rules chans \<longleftrightarrow>
     (\<forall>r w. rules (snd (AddMatch bus r w)) =
        (if fst (AddMatch bus r w) = None then add_mset r (rules w) else rules w)) \<and>
     (\<forall>r w. rules (snd (RemoveMatch bus r w)) = rules w - {#r#}) \<and>
     (\<forall>w. rules (AddSignal bus w) = rules w \<and> chans (AddSignal bus w) = Suc (chans w)) \<and>
     (\<forall>w. rules (RemoveSignal bus w) = rules w \<and> chans (RemoveSignal bus w) = chans w - 1) \<and>
     (\<forall>r w. chans (snd (AddMatch bus r w)) = chans w \<and> chans (snd (RemoveMatch bus r w)) = chans w) \<and>
     (\<forall>p i n w. rules (snd (GetProperty bus p i n w)) = rules w \<and>
        chans (snd (GetProperty bus p i n w)) = chans w) \<and>
     (\<forall>w. rules (snd (GetManagedObjects bus w)) = rules w \<and> chans (snd (GetManagedObjects bus w)) = chans w) \<and>
     (\<forall>p w. rules (snd (StartDiscovery bus p w)) = rules w \<and> chans (snd (StartDiscovery bus p w)) = chans w) \<and>
     (\<forall>p w. rules (snd (StopDiscovery bus p w)) = rules w \<and> chans (snd (StopDiscovery bus p w)) = chans w) \<and>
     (\<forall>p t us w. rules (snd (SetDiscoveryFilter bus p t us w)) = rules w \<and>
        chans (snd (SetDiscoveryFilter bus p t us w)) = chans w)"

lemma bus_laws_snd:
  assumes "bus_laws bus rules chans"
  shows "rules (snd (AddMatch bus r w)) = (if fst (AddMatch bus r w) = None then add_mset r (rules w) else rules w)"
    and "chans (snd (AddMatch bus r w)) = chans w"
    and "rules (snd (RemoveMatch bus r w)) = rules w - {#r#}" "chans (snd (RemoveMatch bus r w)) = chans w"
    and "rules (AddSignal bus w) = rules w" "chans (AddSignal bus w) = Suc (chans w)"
    and "rules (RemoveSignal bus w) = rules w" "chans (RemoveSignal bus w) = chans w - 1"
    and "rules (snd (GetProperty bus p i n w)) = rules w" "chans (snd (GetProperty bus p i n w)) = chans w"
    and "rules (snd (GetManagedObjects bus w)) = rules w" "chans (snd (GetManagedObjects bus w)) = chans w"
    and "rules (snd (StartDiscovery bus p w)) = rules w" "chans (snd (StartDiscovery bus p w)) = chans w"
    and "rules (snd (StopDiscovery bus p w)) = rules w" "chans (snd (StopDiscovery bus p w)) = chans w"
    and "rules (snd (SetDiscoveryFilter bus p t us w)) = rules w"
        "chans (snd (SetDiscoveryFilter bus p t us w)) = chans w"
  using assms by (simp_all add: bus_laws_def)

lemma bus_laws_calls:
  assumes "bus_laws bus rules chans"
  shows "AddMatch bus r w = (e, w') \<Longrightarrow>
      rules w' = (if e = None then add_mset r (rules w) else rules w) \<and> chans w' = chans w"
    and "RemoveMatch bus r w = (e, w') \<Longrightarrow> rules w' = rules w - {#r#} \<and> chans w' = chans w"
    and "GetProperty bus p i n w = (v, w') \<Longrightarrow> rules w' = rules w \<and> chans w' = chans w"
    and "GetManagedObjects bus w = (os, w') \<Longrightarrow> rules w' = rules w \<and> chans w' = chans w"
    and "StartDiscovery bus p w = (e, w') \<Longrightarrow> rules w' = rules w \<and> chans w' = chans w"
    and "StopDiscovery bus p w = (e, w') \<Longrightarrow> rules w' = rules w \<and> chans w' = chans w"
    and "SetDiscoveryFilter bus p t us w = (e, w') \<Longrightarrow> rules w' = rules w \<and> chans w' = chans w"
  using bus_laws_snd(1-4) [OF assms, where r = r and w = w]
    bus_laws_snd(9,10) [OF assms, where p = p and i = i and n = n and w = w]
    bus_laws_snd(11,12) [OF assms, where w = w] bus_laws_snd(13-16) [OF assms, where p = p and w = w]
    bus_laws_snd(17,18) [OF assms, where p = p and t = t and us = us and w = w]
  by simp_all

text \<open>\<open>getManagedObjects\<close> and \<open>setProperty\<close> of adapter_linux.go, over the bus.\<close>

definition getManagedObjects :: "'w Bus \<Rightarrow> 'w \<Rightarrow> (go_error + Objects) \<times> 'w" where
  "getManagedObjects bus w =
     (case GetManagedObjects bus w of
        (Inl err, w) \<Rightarrow> (Inl (Wrapf ''ble: GetManagedObjects: %w'' [err]), w)
      | (Inr objs, w) \<Rightarrow> (Inr objs, w))"

lemma getManagedObjects_Inr:
  "getManagedObjects bus w = (Inr objs, w') \<longleftrightarrow> GetManagedObjects bus w = (Inr objs, w')"
  by (auto simp: getManagedObjects_def split: prod.splits sum.splits)

lemma getManagedObjects_state: "snd (getManagedObjects bus w) = snd (GetManagedObjects bus w)"
  by (auto simp: getManagedObjects_def split: prod.splits sum.splits)

text \<open>The match rules are built with \<open>fmt.Sprintf\<close>; \<open>quoted\<close> puts single quotes around a value.\<close>

definition quoted :: "string \<Rightarrow> string" where
  "quoted s = CHR 39 # s @ [CHR 39]"

definition match_rule :: "string \<Rightarrow> string \<Rightarrow> string" where
  "match_rule iface member =
     ''type='' @ quoted ''signal'' @ '',sender='' @ quoted bluezBusName @ '',interface='' @ quoted iface @
     '',member='' @ quoted member"

definition linux_writeValue :: "'w Bus \<Rightarrow> ObjectPath \<Rightarrow> byte list \<Rightarrow> string \<Rightarrow> 'w \<Rightarrow> go_error option \<times> 'w" where
  "linux_writeValue bus path data ty w = wrap_error ''ble: WriteValue %s: %w'' (WriteValue bus path data ty w)"

definition linux_writeRequest :: "'w Bus \<Rightarrow> ObjectPath \<Rightarrow> byte list \<Rightarrow> 'w \<Rightarrow> go_error option \<times> 'w" where
  "linux_writeRequest bus path data w = linux_writeValue bus path data ''request'' w"

definition linux_writeCommand :: "'w Bus \<Rightarrow> ObjectPath \<Rightarrow> byte list \<Rightarrow> 'w \<Rightarrow> go_error option \<times> 'w" where
  "linux_writeCommand bus path data w = linux_writeValue bus path data ''command'' w"

definition linux_read :: "'w Bus \<Rightarrow> ObjectPath \<Rightarrow> 'w \<Rightarrow> (go_error + byte list) \<times> 'w" where
  "linux_read bus path w =
     (case ReadValue bus path w of
        (Inl err, w) \<Rightarrow> (Inl (Wrapf ''ble: ReadValue %s: %w'' [err]), w)
      | (Inr out, w) \<Rightarrow> (Inr out, w))"

definition readHandle :: "'w Bus \<Rightarrow> ObjectPath \<Rightarrow> 'w \<Rightarrow> (go_error + u16) \<times> 'w" where
  "readHandle bus path w =
     (case GetProperty bus path bluezGattCharIface ''Handle'' w of
        (Inl err, w) \<Rightarrow> (Inl (Wrapf ''ble: reading char Handle: %w'' [err]), w)
      | (Inr (VUint16 h), w) \<Rightarrow> (Inr h, w)
      | (Inr _, w) \<Rightarrow> (Inl (Errorf ''ble: Handle property unexpected type %T''), w))"

subsection \<open>Linux: the raw HCI socket\<close>

text \<open>The system calls, as parameters; a file descriptor is a number.\<close>

record 'w Sys =
  sys_Socket :: "'w \<Rightarrow> (go_error + nat) \<times> 'w"
  sys_SetFilter :: "nat \<Rightarrow> byte list \<Rightarrow> 'w \<Rightarrow> go_error option \<times> 'w"
  sys_Bind :: "nat \<Rightarrow> 'w \<Rightarrow> go_error option \<times> 'w"
  sys_Close :: "nat \<Rightarrow> 'w \<Rightarrow> 'w"

definition hci_filter :: "byte list" where
  "hci_filter =
     (case PutUint32_LE (take 4 (replicate 16 0)) (push_bit 2 1) of
        None \<Rightarrow> replicate 16 0
      | Some b \<Rightarrow> b @ replicate 12 0)"

definition openHCIRaw :: "'w Sys \<Rightarrow> 'w \<Rightarrow> (go_error + nat) \<times> 'w" where
  "openHCIRaw sys w =
     (case sys_Socket sys w of
        (Inl err, w) \<Rightarrow> (Inl err, w)
      | (Inr fd, w) \<Rightarrow>
     case sys_SetFilter sys fd hci_filter w of
        (Some err, w) \<Rightarrow> (Inl (Wrapf ''setting HCI filter: %w'' [err]), sys_Close sys fd w)
      | (None, w) \<Rightarrow>
     case sys_Bind sys fd w of
        (Some err, w) \<Rightarrow> (Inl (Wrapf ''binding HCI socket: %w'' [err]), sys_Close sys fd w)
      | (None, w) \<Rightarrow> (Inr fd, w))"

text \<open>
  The documented behaviour of the system calls, over the set of open descriptors: a new socket is
  open, the options and the address change nothing, and closing closes.
\<close>

definition sys_laws :: "'w Sys \<Rightarrow> ('w \<Rightarrow> nat set) \<Rightarrow> bool" where
  "sys_laws sys fds \<longleftrightarrow>
     (\<forall>w. case sys_Socket sys w of
        (Inl _, w') \<Rightarrow> fds w' = fds w
      | (Inr fd, w') \<Rightarrow> fd \<notin> fds w \<and> fds w' = insert fd (fds w)) \<and>
     (\<forall>fd b w. fds (snd (sys_SetFilter sys fd b w)) = fds w) \<and>
     (\<forall>fd w. fds (snd (sys_Bind sys fd w)) = fds w) \<and>
     (\<forall>fd w. fds (sys_Close sys fd w) = fds w - {fd})"

text \<open>A socket that is not returned is closed.\<close>

lemma openHCIRaw_fds:
  assumes "sys_laws sys fds" "openHCIRaw sys w = (r, w')"
  shows "fds w' = (case r of Inl _ \<Rightarrow> fds w | Inr fd \<Rightarrow> insert fd (fds w))"
proof -
  obtain r1 w1 where s: "sys_Socket sys w = (r1, w1)" by (cases "sys_Socket sys w")
  show ?thesis
  proof (cases r1)
    case Inl
    with s assms show ?thesis by (auto simp: openHCIRaw_def sys_laws_def dest: spec [where x = w])
  next
    case (Inr fd)
    with s assms(1) have fd: "fd \<notin> fds w" "fds w1 = insert fd (fds w)"
      by (auto simp: sys_laws_def dest: spec [where x = w])
    obtain e2 w2 where f: "sys_SetFilter sys fd hci_filter w1 = (e2, w2)" by fastforce
    obtain e3 w3 where b: "sys_Bind sys fd w2 = (e3, w3)" by fastforce
    from assms(1) have "fds (snd (sys_SetFilter sys fd hci_filter w1)) = fds w1"
      "fds (snd (sys_Bind sys fd w2)) = fds w2" "\<And>v. fds (sys_Close sys fd v) = fds v - {fd}"
      by (auto simp: sys_laws_def)
    with assms(2) s Inr f b fd show ?thesis
      by (auto simp: openHCIRaw_def split: option.splits)
  qed
qed

text \<open>What \<open>subscribe\<close> hands to the reading goroutine: the socket and the handle of the value.\<close>

definition linux_subscribe_start ::
    "'w Bus \<Rightarrow> 'w Sys \<Rightarrow> ObjectPath \<Rightarrow> 'w \<Rightarrow> (go_error + nat \<times> u16) \<times> 'w" where
  "linux_subscribe_start bus sys path w =
     (case readHandle bus path w of
        (Inl err, w) \<Rightarrow> (Inl err, w)
      | (Inr declHandle, w) \<Rightarrow>
          let valueHandle = declHandle + 1
          in case openHCIRaw sys w of
               (Inl err, w) \<Rightarrow> (Inl (Wrapf ''ble: opening raw HCI socket: %w'' [err]), w)
             | (Inr fd, w) \<Rightarrow> (Inr (fd, valueHandle), w))"

definition newLinuxCharIO :: "'w Bus \<Rightarrow> 'w Sys \<Rightarrow> ObjectPath \<Rightarrow> 'w charIO" where
  "newLinuxCharIO bus sys path =
     \<lparr>writeRequest = linux_writeRequest bus path, writeCommand = linux_writeCommand bus path,
      read_value = linux_read bus path,
      subscribe = (\<lambda>w. case linux_subscribe_start bus sys path w of
        (Inl err, w) \<Rightarrow> (Some err, w) | (Inr _, w) \<Rightarrow> (None, w))\<rparr>"

text \<open>The filter lets HCI packets of type 2 (ACL data) through and nothing else.\<close>

lemma hci_filter_bytes: "hci_filter = 4 # replicate 15 0"
proof -
  have "take 4 (replicate 16 (0 :: byte)) = [0, 0, 0, 0]" by (simp add: numeral_eq_Suc)
  moreover have "PutUint32_LE [0, 0, 0, 0] (push_bit 2 1) = Some [4, 0, 0, 0]"
    by (simp add: PutUint32_LE_def)
  ultimately show ?thesis by (simp add: hci_filter_def numeral_eq_Suc)
qed

subsection \<open>tinygo\<close>

record 'w TinyChar =
  tiny_UUID :: UUID
  tiny_Write :: "byte list \<Rightarrow> 'w \<Rightarrow> go_error option \<times> 'w"
  tiny_WriteWithoutResponse :: "byte list \<Rightarrow> 'w \<Rightarrow> go_error option \<times> 'w"
  tiny_Read :: "nat \<Rightarrow> 'w \<Rightarrow> (go_error + byte list) \<times> 'w"
  tiny_EnableNotifications :: "'w \<Rightarrow> go_error option \<times> 'w"

text \<open>\<open>tiny_Read k\<close> reads into a buffer of \<open>k\<close> bytes and returns the part it filled.\<close>

definition tinygoCharIO :: "'w TinyChar \<Rightarrow> 'w charIO" where
  "tinygoCharIO ch =
     \<lparr>writeRequest = (\<lambda>data w. wrap_error ''ble: write: %w'' (tiny_Write ch data w)),
      writeCommand = (\<lambda>data w. wrap_error ''ble: write without response: %w''
        (tiny_WriteWithoutResponse ch data w)),
      read_value = tiny_Read ch 64,
      subscribe = (\<lambda>w. wrap_error ''ble: enable notifications: %w'' (tiny_EnableNotifications ch w))\<rparr>"

end
