(* ===== verification/Transport_Lock.thy ===== *)
theory Transport_Lock
  imports Ble_Gatt
begin

section \<open>ble/transport.go: the methods of a transport side by side\<close>

text \<open>
  \<open>Ble_Gatt\<close> says what a method of the transport does when it runs alone. Here any number of calls
  are in progress at once: \<open>WritePair\<close> and \<open>WriteCommand\<close> take the mutex around the write and give
  it back by a deferred call, \<open>ReadPair\<close> and \<open>SubscribeNotify\<close> do not take it. A call of a
  characteristic changes the state below when it returns; between its start and its return other
  goroutines move. The connection is one with all three characteristics.
\<close>

datatype tl_call = CallPair "byte list" | CallCommand "byte list" | CallRead | CallSubscribe

datatype tl_result = Wrote "go_error option" | ReadBuf "go_error + byte list"

datatype tl_pc =
    AtLock tl_call
  | InWrite tl_call
  | AtUnlock tl_result
  | InRead
  | InSubscribe
  | InKick
  | Back tl_result

text \<open>
  The ghost fields are the state at the start, whether a subscription was ever asked for, and the
  calls whose effect is over, with their results.
\<close>

record 'w tlock =
  tl_w :: 'w
  tl_locked :: bool
  tl_calls :: "tl_pc list"
  tl_w0 :: 'w
  tl_subscribed :: bool
  tl_log :: "(tl_call \<times> tl_result) list"

datatype tl_action = TLCalls tl_call | TLMoves nat

definition tl_start :: "'w \<Rightarrow> 'w tlock" where
  "tl_start w =
     \<lparr>tl_w = w, tl_locked = False, tl_calls = [], tl_w0 = w, tl_subscribed = False, tl_log = []\<rparr>"

fun tl_enter :: "tl_call \<Rightarrow> tl_pc" where
  "tl_enter (CallPair d) = AtLock (CallPair d)"
| "tl_enter (CallCommand d) = AtLock (CallCommand d)"
| "tl_enter CallRead = InRead"
| "tl_enter CallSubscribe = InSubscribe"

text \<open>A call run alone, and several one after the other.\<close>

fun run_call :: "'w Connection \<Rightarrow> tl_call \<Rightarrow> 'w \<Rightarrow> (tl_result \<times> 'w) option" where
  "run_call conn (CallPair d) w = map_option (\<lambda>(e, w). (Wrote e, w)) (Transport_WritePair conn d w)"
| "run_call conn (CallCommand d) w = map_option (\<lambda>(e, w). (Wrote e, w)) (Transport_WriteCommand conn d w)"
| "run_call conn CallRead w = map_option (\<lambda>(r, w). (ReadBuf r, w)) (Transport_ReadPair conn w)"
| "run_call conn CallSubscribe w = map_option (\<lambda>(e, w). (Wrote e, w)) (Transport_SubscribeNotify conn w)"

fun run_calls :: "'w Connection \<Rightarrow> tl_call list \<Rightarrow> 'w \<Rightarrow> (tl_result list \<times> 'w) option" where
  "run_calls conn [] w = Some ([], w)"
| "run_calls conn (c # cs) w =
     (case run_call conn c w of
        None \<Rightarrow> None
      | Some (r, w) \<Rightarrow> map_option (\<lambda>(rs, w). (r # rs, w)) (run_calls conn cs w))"

inductive tl_step :: "'w Connection \<Rightarrow> 'w tlock \<Rightarrow> tl_action \<Rightarrow> 'w tlock \<Rightarrow> bool" for conn where
  tl_call_made: "tl_step conn s (TLCalls c)
     (s\<lparr>tl_calls := tl_calls s @ [tl_enter c], tl_subscribed := tl_subscribed s \<or> c = CallSubscribe\<rparr>)"
| tl_locks: "i < length (tl_calls s) \<Longrightarrow> tl_calls s ! i = AtLock c \<Longrightarrow> \<not> tl_locked s \<Longrightarrow>
     tl_step conn s (TLMoves i) (s\<lparr>tl_locked := True, tl_calls := (tl_calls s)[i := InWrite c]\<rparr>)"
| tl_writes: "i < length (tl_calls s) \<Longrightarrow> tl_calls s ! i = InWrite c \<Longrightarrow> run_call conn c (tl_w s) = Some (r, w) \<Longrightarrow>
     tl_step conn s (TLMoves i)
       (s\<lparr>tl_w := w, tl_calls := (tl_calls s)[i := AtUnlock r], tl_log := tl_log s @ [(c, r)]\<rparr>)"
| tl_unlocks: "i < length (tl_calls s) \<Longrightarrow> tl_calls s ! i = AtUnlock r \<Longrightarrow>
     tl_step conn s (TLMoves i) (s\<lparr>tl_locked := False, tl_calls := (tl_calls s)[i := Back r]\<rparr>)"
| tl_reads: "i < length (tl_calls s) \<Longrightarrow> tl_calls s ! i = InRead \<Longrightarrow> run_call conn CallRead (tl_w s) = Some (r, w) \<Longrightarrow>
     tl_step conn s (TLMoves i)
       (s\<lparr>tl_w := w, tl_calls := (tl_calls s)[i := Back r], tl_log := tl_log s @ [(CallRead, r)]\<rparr>)"
| tl_subscribe_fails: "i < length (tl_calls s) \<Longrightarrow> tl_calls s ! i = InSubscribe \<Longrightarrow> charNotify conn = Some io \<Longrightarrow>
     subscribe io (tl_w s) = (Some err, w) \<Longrightarrow>
     tl_step conn s (TLMoves i)
       (s\<lparr>tl_w := w, tl_calls := (tl_calls s)[i := Back (Wrote (Some (Wrapf ''ble: enabling notifications: %w'' [err])))]\<rparr>)"
| tl_subscribes: "i < length (tl_calls s) \<Longrightarrow> tl_calls s ! i = InSubscribe \<Longrightarrow> charNotify conn = Some io \<Longrightarrow>
     subscribe io (tl_w s) = (None, w) \<Longrightarrow>
     tl_step conn s (TLMoves i) (s\<lparr>tl_w := w, tl_calls := (tl_calls s)[i := InKick]\<rparr>)"
| tl_kicks: "i < length (tl_calls s) \<Longrightarrow> tl_calls s ! i = InKick \<Longrightarrow> charNotify conn = Some io \<Longrightarrow>
     wrap_error ''ble: kicking Telink notify: %w'' (writeRequest io [0x01] (tl_w s)) = (e, w) \<Longrightarrow>
     tl_step conn s (TLMoves i) (s\<lparr>tl_w := w, tl_calls := (tl_calls s)[i := Back (Wrote e)]\<rparr>)"

inductive_cases tl_stepE: "tl_step conn s a s'"

abbreviation tl_reachable :: "'w Connection \<Rightarrow> 'w tlock \<Rightarrow> bool" where
  "tl_reachable conn \<equiv> reachable (\<lambda>s. \<exists>w. s = tl_start w) (tl_step conn)"

subsection \<open>The mutex\<close>

text \<open>How many calls are between lock and unlock: as many as the mutex says.\<close>

fun tl_holds :: "tl_pc \<Rightarrow> nat" where
  "tl_holds (InWrite c) = 1"
| "tl_holds (AtUnlock r) = 1"
| "tl_holds _ = 0"

definition tl_holding :: "tl_pc list \<Rightarrow> nat" where
  "tl_holding pcs = sum_list (map tl_holds pcs)"

lemma tl_holding_simps [simp]:
  "tl_holding [] = 0" "tl_holding (pc # pcs) = tl_holds pc + tl_holding pcs"
  "tl_holding (pcs @ pcs') = tl_holding pcs + tl_holding pcs'"
  by (simp_all add: tl_holding_def)

lemma holding_member: "i < length pcs \<Longrightarrow> tl_holds (pcs ! i) \<le> tl_holding pcs"
  unfolding tl_holding_def by (auto intro!: member_le_sum_list)

lemma holding_update:
  "i < length pcs \<Longrightarrow> tl_holding (pcs[i := pc]) = tl_holding pcs + tl_holds pc - tl_holds (pcs ! i)"
  by (simp add: tl_holding_def map_update sum_list_update)

text \<open>Only the two writes come to the mutex.\<close>

fun tl_pc_ok :: "tl_pc \<Rightarrow> bool" where
  "tl_pc_ok (AtLock c) \<longleftrightarrow> c \<noteq> CallSubscribe \<and> c \<noteq> CallRead"
| "tl_pc_ok (InWrite c) \<longleftrightarrow> c \<noteq> CallSubscribe \<and> c \<noteq> CallRead"
| "tl_pc_ok _ \<longleftrightarrow> True"

text \<open>What a call that is over has returned is what the log says.\<close>

fun tl_returned :: "(tl_call \<times> tl_result) list \<Rightarrow> tl_pc \<Rightarrow> bool" where
  "tl_returned log (AtUnlock r) \<longleftrightarrow> r \<in> snd ` set log"
| "tl_returned log (Back r) \<longleftrightarrow> r \<in> snd ` set log"
| "tl_returned log InSubscribe \<longleftrightarrow> False"
| "tl_returned log InKick \<longleftrightarrow> False"
| "tl_returned log _ \<longleftrightarrow> True"

definition tl_serial :: "'w Connection \<Rightarrow> 'w tlock \<Rightarrow> bool" where
  "tl_serial conn s \<longleftrightarrow>
     run_calls conn (map fst (tl_log s)) (tl_w0 s) = Some (map snd (tl_log s), tl_w s) \<and>
     list_all (tl_returned (tl_log s)) (tl_calls s)"

definition tl_inv :: "'w Connection \<Rightarrow> 'w tlock \<Rightarrow> bool" where
  "tl_inv conn s \<longleftrightarrow> tl_holding (tl_calls s) = of_bool (tl_locked s) \<and> list_all tl_pc_ok (tl_calls s) \<and>
     (tl_subscribed s \<or> tl_serial conn s)"

lemma run_calls_snoc:
  "run_calls conn (cs @ [c]) w =
     (case run_calls conn cs w of
        None \<Rightarrow> None
      | Some (rs, w) \<Rightarrow> map_option (\<lambda>(r, w). (rs @ [r], w)) (run_call conn c w))"
  by (induction cs arbitrary: w)
    (auto simp: option.map_comp comp_def split: option.splits prod.splits intro!: option.map_cong)

lemma tl_returned_more: "tl_returned log pc \<Longrightarrow> tl_returned (log @ es) pc"
  by (cases pc) auto

lemma tl_returned_update:
  "list_all (tl_returned log) pcs \<Longrightarrow> tl_returned (log @ es) pc \<Longrightarrow> list_all (tl_returned (log @ es)) (pcs[i := pc])"
  by (cases "i < length pcs") (auto simp: list_all_length nth_list_update tl_returned_more)

lemma tl_returned_at: "list_all (tl_returned log) pcs \<Longrightarrow> i < length pcs \<Longrightarrow> tl_returned log (pcs ! i)"
  by (simp add: list_all_length)

lemma tl_inv_step:
  assumes inv: "tl_inv conn s" and step: "tl_step conn s a s'"
  shows "tl_inv conn s'"
proof -
  have hold: "tl_holding (tl_calls s) = of_bool (tl_locked s)" and ok: "list_all tl_pc_ok (tl_calls s)"
    and serial: "tl_subscribed s \<or> tl_serial conn s" using inv by (simp_all add: tl_inv_def)
  have "tl_holding (tl_calls s') = of_bool (tl_locked s')"
    using step
  proof (cases rule: tl_step.cases)
    case (tl_call_made c)
    with hold show ?thesis by (cases c) simp_all
  qed (use hold holding_member [of _ "tl_calls s"] in \<open>fastforce simp: holding_update of_bool_def split: if_splits\<close>)+
  moreover have "list_all tl_pc_ok (tl_calls s')"
    using step
  proof (cases rule: tl_step.cases)
    case (tl_call_made c)
    with ok show ?thesis by (cases c) simp_all
  qed (use ok in \<open>force simp: list_all_length nth_list_update\<close>)+
  moreover have "tl_subscribed s' \<or> tl_serial conn s'"
    using step
  proof (cases rule: tl_step.cases)
    case (tl_call_made c)
    with serial show ?thesis by (cases c) (auto simp: tl_serial_def)
  qed (use serial tl_returned_at [of "tl_log s" "tl_calls s"] tl_returned_update [of "tl_log s" "tl_calls s" "[]"] in
      \<open>fastforce simp: tl_serial_def run_calls_snoc intro: tl_returned_update\<close>)+
  ultimately show ?thesis by (simp add: tl_inv_def)
qed

interpretation tlock: step_invariant "\<lambda>s. \<exists>w. s = tl_start w" "tl_step conn" "tl_inv conn" for conn :: "'w Connection"
proof unfold_locales
  show "\<exists>w. s = tl_start w \<Longrightarrow> tl_inv conn s" for s :: "'w tlock"
    by (auto simp: tl_start_def tl_inv_def tl_serial_def)
qed (rule tl_inv_step)

text \<open>Two calls are never both between lock and unlock.\<close>

lemma holding_two:
  assumes "i < length pcs" "j < length pcs" "i \<noteq> j"
  shows "tl_holds (pcs ! i) + tl_holds (pcs ! j) \<le> tl_holding pcs"
  using holding_update [OF assms(1), of "Back (Wrote None)"] holding_member [of j "pcs[i := Back (Wrote None)]"]
    holding_member [OF assms(1)] assms
  by simp

lemma one_writer:
  assumes "tl_inv conn s" "i < length (tl_calls s)" "j < length (tl_calls s)"
    and "tl_calls s ! i = InWrite c" "tl_calls s ! j = InWrite c'"
  shows "i = j \<and> tl_locked s"
  using holding_two [of i "tl_calls s" j] holding_member [of i "tl_calls s"] assms
  by (cases "i = j") (auto simp: tl_inv_def of_bool_def split: if_splits)

subsection \<open>Every call returns\<close>

definition tl_own :: "'w Connection \<Rightarrow> 'w tlock \<Rightarrow> tl_action \<Rightarrow> 'w tlock \<Rightarrow> bool" where
  "tl_own conn s a s' \<longleftrightarrow> tl_step conn s a s' \<and> (\<exists>i. a = TLMoves i)"

fun tl_pc_rank :: "tl_pc \<Rightarrow> nat" where
  "tl_pc_rank (AtLock c) = 3"
| "tl_pc_rank (InWrite c) = 2"
| "tl_pc_rank (AtUnlock r) = 1"
| "tl_pc_rank InRead = 1"
| "tl_pc_rank InSubscribe = 2"
| "tl_pc_rank InKick = 1"
| "tl_pc_rank (Back r) = 0"

definition tl_rank :: "'w tlock \<Rightarrow> nat" where
  "tl_rank s = sum_list (map tl_pc_rank (tl_calls s))"

definition tl_live :: "'w Connection \<Rightarrow> 'w tlock \<Rightarrow> bool" where
  "tl_live conn s \<longleftrightarrow> complete conn \<and> tl_inv conn s"

definition tl_final :: "'w tlock \<Rightarrow> bool" where
  "tl_final s \<longleftrightarrow> (\<forall>pc \<in> set (tl_calls s). \<exists>r. pc = Back r) \<and> \<not> tl_locked s"

lemma rank_update:
  assumes "i < length pcs" "tl_pc_rank pc < tl_pc_rank (pcs ! i)"
  shows "sum_list (map tl_pc_rank (pcs[i := pc])) < sum_list (map tl_pc_rank pcs)"
proof -
  have "tl_pc_rank (pcs ! i) \<le> sum_list (map tl_pc_rank pcs)"
    using assms(1) by (auto intro!: member_le_sum_list)
  with assms show ?thesis by (simp add: map_update sum_list_update)
qed

lemma run_call_complete: "complete conn \<Longrightarrow> \<exists>r w'. run_call conn c w = Some (r, w')"
proof -
  assume "complete conn"
  then have "run_call conn c w \<noteq> None" using complete_no_panic [of conn] by (cases c) simp_all
  then show ?thesis by (cases "run_call conn c w") auto
qed

lemma tl_moves:
  assumes "complete conn" "i < length (tl_calls s)" "\<And>r. tl_calls s ! i \<noteq> Back r" "\<And>c. tl_calls s ! i \<noteq> AtLock c"
  shows "\<exists>s'. tl_own conn s (TLMoves i) s'"
proof -
  obtain io where io: "charNotify conn = Some io" using assms(1) by (auto simp: complete_def)
  have "\<exists>s'. tl_step conn s (TLMoves i) s'"
  proof (cases "tl_calls s ! i")
    case (InWrite c)
    with assms(2) run_call_complete [OF assms(1), of c "tl_w s"] show ?thesis by (blast intro: tl_writes)
  next
    case (AtUnlock r)
    with assms(2) show ?thesis by (blast intro: tl_unlocks)
  next
    case InRead
    with assms(2) run_call_complete [OF assms(1), of CallRead "tl_w s"] show ?thesis by (blast intro: tl_reads)
  next
    case InSubscribe
    obtain e w where "subscribe io (tl_w s) = (e, w)" by fastforce
    with assms(2) InSubscribe io show ?thesis by (cases e) (blast intro: tl_subscribes tl_subscribe_fails)+
  next
    case InKick
    obtain e w where "wrap_error ''ble: kicking Telink notify: %w'' (writeRequest io [0x01] (tl_w s)) = (e, w)" by fastforce
    with assms(2) InKick io show ?thesis by (blast intro: tl_kicks)
  qed (use assms in auto)
  then show ?thesis by (simp add: tl_own_def)
qed

interpretation tlock_end: step_terminates "tl_own conn" tl_rank "tl_live conn" tl_final for conn :: "'w Connection"
proof unfold_locales
  fix s s' :: "'w tlock" and a
  show "tl_own conn s a s' \<Longrightarrow> tl_rank s' < tl_rank s"
    by (auto simp: tl_own_def tl_rank_def elim!: tl_step.cases intro!: rank_update)
  show "tl_live conn s \<Longrightarrow> tl_own conn s a s' \<Longrightarrow> tl_live conn s'"
    by (auto simp: tl_live_def tl_own_def tl_inv_step)
  assume live: "tl_live conn s" and more: "\<not> tl_final s"
  show "\<exists>a s'. tl_own conn s a s'"
  proof (cases "\<exists>i < length (tl_calls s). (\<forall>r. tl_calls s ! i \<noteq> Back r) \<and> (\<forall>c. tl_calls s ! i \<noteq> AtLock c)")
    case True
    with tl_moves [of conn _ s] live show ?thesis unfolding tl_live_def by blast
  next
    case False
    then have "\<forall>pc \<in> set (tl_calls s). tl_holds pc = 0" by (fastforce simp: in_set_conv_nth)
    then have "tl_holding (tl_calls s) = 0" by (simp add: tl_holding_def)
    with live have free: "\<not> tl_locked s" by (simp add: tl_live_def tl_inv_def)
    with more obtain pc where "pc \<in> set (tl_calls s)" "\<forall>r. pc \<noteq> Back r" by (auto simp: tl_final_def)
    with False obtain i c where "i < length (tl_calls s)" "tl_calls s ! i = AtLock c"
      unfolding in_set_conv_nth by blast
    with tl_locks [OF this free, of conn] show ?thesis unfolding tl_own_def by blast
  qed
qed

lemma tl_rank_bound: "tl_rank s \<le> 3 * length (tl_calls s)"
proof -
  have "sum_list (map tl_pc_rank pcs) \<le> 3 * length pcs" for pcs
  proof (induction pcs)
    case (Cons pc pcs)
    then show ?case by (cases pc) simp_all
  qed simp
  then show ?thesis by (simp add: tl_rank_def)
qed

subsection \<open>The call that does not take the mutex\<close>

text \<open>Uninterrupted, the steps of \<open>SubscribeNotify\<close> are the method run alone.\<close>

lemma subscribe_uninterrupted:
  assumes "i < length (tl_calls s)" "tl_calls s ! i = InSubscribe"
    and "run_call conn CallSubscribe (tl_w s) = Some (r, w)"
  shows "\<exists>as. steps (tl_own conn) s as (s\<lparr>tl_w := w, tl_calls := (tl_calls s)[i := Back r]\<rparr>)"
proof -
  from assms(3) obtain io where io: "charNotify conn = Some io"
    by (cases "charNotify conn") (auto simp: Transport_SubscribeNotify_def)
  obtain e w1 where sub: "subscribe io (tl_w s) = (e, w1)" by fastforce
  show ?thesis
  proof (cases e)
    case (Some err)
    with assms(3) io sub have "r = Wrote (Some (Wrapf ''ble: enabling notifications: %w'' [err]))" "w = w1"
      by (simp_all add: Transport_SubscribeNotify_def)
    with tl_subscribe_fails [OF assms(1,2) io] sub Some
    have "tl_own conn s (TLMoves i) (s\<lparr>tl_w := w, tl_calls := (tl_calls s)[i := Back r]\<rparr>)" by (simp add: tl_own_def)
    then show ?thesis by (blast intro: steps_one)
  next
    case None
    let ?s1 = "s\<lparr>tl_w := w1, tl_calls := (tl_calls s)[i := InKick]\<rparr>"
    have 1: "tl_own conn s (TLMoves i) ?s1" using tl_subscribes [OF assms(1,2) io] sub None by (simp add: tl_own_def)
    obtain e2 where k: "wrap_error ''ble: kicking Telink notify: %w'' (writeRequest io [0x01] w1) = (e2, w)" "r = Wrote e2"
      using assms(3) io sub None by (auto simp: Transport_SubscribeNotify_def split: prod.splits)
    have "tl_own conn ?s1 (TLMoves i) (s\<lparr>tl_w := w, tl_calls := (tl_calls s)[i := Back r]\<rparr>)"
      using tl_kicks [of i ?s1 conn io e2 w] assms(1) io k by (simp add: tl_own_def)
    with 1 show ?thesis by (blast intro: steps_Cons steps_Nil)
  qed
qed

text \<open>But its kick is written while another goroutine writes a command.\<close>

lemma kick_overlaps:
  assumes "charNotify conn = Some io" "subscribe io w = (None, w1)"
  shows "\<exists>s. tl_reachable conn s \<and> tl_calls s = [InKick, InWrite (CallCommand d)]"
proof -
  let ?s1 = "(tl_start w)\<lparr>tl_calls := [InSubscribe], tl_subscribed := True\<rparr>"
  let ?s2 = "?s1\<lparr>tl_w := w1, tl_calls := [InKick]\<rparr>"
  let ?s3 = "?s2\<lparr>tl_calls := [InKick, AtLock (CallCommand d)]\<rparr>"
  let ?s4 = "?s3\<lparr>tl_locked := True, tl_calls := [InKick, InWrite (CallCommand d)]\<rparr>"
  have "tl_reachable conn (tl_start w)" by (rule reach_start) blast
  moreover have "tl_step conn (tl_start w) (TLCalls CallSubscribe) ?s1"
    using tl_call_made [of conn "tl_start w" CallSubscribe] by (simp add: tl_start_def)
  moreover have "tl_step conn ?s1 (TLMoves 0) ?s2"
    using tl_subscribes [of 0 ?s1 conn io w1] assms by (simp add: tl_start_def)
  moreover have "tl_step conn ?s2 (TLCalls (CallCommand d)) ?s3"
    using tl_call_made [of conn ?s2 "CallCommand d"] by (simp add: tl_start_def)
  moreover have "tl_step conn ?s3 (TLMoves 1) ?s4"
    using tl_locks [of 1 ?s3 "CallCommand d" conn] by (simp add: tl_start_def)
  ultimately have "tl_reachable conn ?s4" by (blast intro: reach_step)
  then show ?thesis by (intro exI [of _ ?s4]) simp
qed

end
