(* ===== verification/Ble_Hci.thy ===== *)
theory Ble_Hci
  imports Ble_Gatt "HOL-Library.Sublist"
begin

section \<open>ble/chario_linux.go and chario_tinygo.go: the delivery of notifications\<close>

text \<open>
  On Linux a goroutine reads ACL packets from a raw HCI socket into one buffer that it never
  clears, and forwards the bodies of the ATT notifications on one handle; on tinygo a callback
  of the third-party package does the forwarding, and another goroutine closes the channel
  when the context is done. Both drop what does not fit into a channel of capacity 64.
\<close>

subsection \<open>One HCI packet\<close>

text \<open>\<open>hci_packet vh buf n\<close>: the checks on the first \<open>n\<close> bytes of the buffer, and the body.\<close>

definition hci_packet :: "u16 \<Rightarrow> byte list \<Rightarrow> nat \<Rightarrow> byte list option" where
  "hci_packet valueHandle buf n =
     (if n < 12 then None
      else if buf ! 0 \<noteq> 2 then None
      else
        let l2capCID = le16_of (buf ! 7) (buf ! 8)
        in if l2capCID \<noteq> 0x0004 then None
           else if n < 12 then None
           else
             let attOpcode = buf ! 9
             in if attOpcode \<noteq> 0x1B then None
                else
                  let attHandle = le16_of (buf ! 10) (buf ! 11)
                  in if attHandle \<noteq> valueHandle then None
                     else Some (take (n - 12) (drop 12 buf)))"

text \<open>A notification as the controller frames it: the ACL and L2CAP headers, then the ATT PDU.\<close>

definition acl_notification :: "byte list \<Rightarrow> u16 \<Rightarrow> byte list \<Rightarrow> byte list" where
  "acl_notification hdr vh body = 2 # hdr @ [0x04, 0x00, 0x1B, lo8 vh, hi8 vh] @ body"

lemma twelve_bytes:
  assumes "12 \<le> length f"
  obtains b0 b1 b2 b3 b4 b5 b6 b7 b8 b9 b10 b11 body where
    "f = [b0, b1, b2, b3, b4, b5, b6, b7, b8, b9, b10, b11] @ body"
proof -
  from assms have "\<exists>b0 b1 b2 b3 b4 b5 b6 b7 b8 b9 b10 b11 body.
      f = b0 # b1 # b2 # b3 # b4 # b5 # b6 # b7 # b8 # b9 # b10 # b11 # body"
    by (auto simp: numeral_eq_Suc Suc_le_length_iff)
  with that show ?thesis by auto
qed

lemma le16_of_eq_iff: "le16_of a b = v \<longleftrightarrow> a = lo8 v \<and> b = hi8 v"
  by (metis hi8_le16 le16_lo8_hi8 lo8_le16)

lemma six_bytes: "length hdr = 6 \<longleftrightarrow> (\<exists>a b c d e f. hdr = [a, b, c, d, e, f])"
  by (auto simp: numeral_eq_Suc length_Suc_conv)

text \<open>Bytes of an earlier packet beyond \<open>n\<close> have no influence.\<close>

lemma hci_packet_fresh:
  assumes "length f \<le> length buf"
  shows "hci_packet vh (go_copy buf f) (length f) = Some body \<longleftrightarrow>
     (\<exists>hdr. length hdr = 6 \<and> f = acl_notification hdr vh body)"
proof (cases "12 \<le> length f")
  case False
  then show ?thesis by (auto simp: hci_packet_def acl_notification_def)
next
  case True
  then obtain b0 b1 b2 b3 b4 b5 b6 b7 b8 b9 b10 b11 rest where
    f: "f = [b0, b1, b2, b3, b4, b5, b6, b7, b8, b9, b10, b11] @ rest"
    by (rule twelve_bytes)
  have buf: "go_copy buf f = f @ drop (length f) buf" using assms by (rule go_copy_short)
  have l4: "lo8 4 = 4" "hi8 4 = 0" by (simp_all add: lo8_def hi8_def)
  have "hci_packet vh (go_copy buf f) (length f) =
      (if b0 = 2 \<and> b7 = 4 \<and> b8 = 0 \<and> b9 = 0x1B \<and> b10 = lo8 vh \<and> b11 = hi8 vh then Some rest else None)"
    unfolding buf by (simp add: hci_packet_def f Let_def le16_of_eq_iff l4)
  then show ?thesis by (auto simp: f acl_notification_def six_bytes)
qed

subsection \<open>The reading goroutine\<close>

datatype hci_pc = HciPoll | HciRead | HciDone

record hci =
  h_handle :: u16
  h_buf :: "byte list"
  h_ctxDone :: bool
  h_out :: "byte list list"
  h_outClosed :: bool
  h_pc :: hci_pc
  h_frames :: "byte list list"
  h_sent :: "byte list list"
  h_dropped :: nat

datatype hci_action = HciContextDone | HciReceives | HciMoves | HciReads "byte list"

definition hci_start :: "u16 \<Rightarrow> hci" where
  "hci_start vh =
     \<lparr>h_handle = vh, h_buf = replicate 1024 0, h_ctxDone = False, h_out = [], h_outClosed = False,
      h_pc = HciPoll, h_frames = [], h_sent = [], h_dropped = 0\<rparr>"

text \<open>
  A packet that was read: nothing to forward, or the body sent if there is room, dropped if
  not. When the context is done the \<open>select\<close> may also choose to return, which then leaves its
  packet uncounted, and it has to when the channel is full: the default branch runs only when no
  other is ready. A poll or read that fails, and \<open>SetNonblock\<close> failing at the start, end the
  goroutine; EINTR and EAGAIN do not.
\<close>

definition hci_forward :: "hci \<Rightarrow> byte list \<Rightarrow> hci" where
  "hci_forward h f =
     (let h = h\<lparr>h_buf := go_copy (h_buf h) f, h_frames := h_frames h @ [f], h_pc := HciPoll\<rparr>
      in case hci_packet (h_handle h) (h_buf h) (length f) of
           None \<Rightarrow> h
         | Some packet \<Rightarrow>
             if length (h_out h) < 64 then h\<lparr>h_out := h_out h @ [packet], h_sent := h_sent h @ [packet]\<rparr>
             else h\<lparr>h_dropped := Suc (h_dropped h)\<rparr>)"

inductive hci_step :: "hci \<Rightarrow> hci_action \<Rightarrow> hci \<Rightarrow> bool" where
  hci_context: "hci_step h HciContextDone (h\<lparr>h_ctxDone := True\<rparr>)"
| hci_receives: "h_out h = p # ps \<Longrightarrow> hci_step h HciReceives (h\<lparr>h_out := ps\<rparr>)"
| hci_cancelled: "h_pc h = HciPoll \<Longrightarrow> h_ctxDone h \<Longrightarrow>
     hci_step h HciMoves (h\<lparr>h_pc := HciDone, h_outClosed := True\<rparr>)"
| hci_ready: "h_pc h = HciPoll \<Longrightarrow> \<not> h_ctxDone h \<Longrightarrow> hci_step h HciMoves (h\<lparr>h_pc := HciRead\<rparr>)"
| hci_not_ready: "h_pc h = HciPoll \<Longrightarrow> \<not> h_ctxDone h \<Longrightarrow> hci_step h HciMoves h"
| hci_fails: "h_pc h = HciPoll \<or> h_pc h = HciRead \<Longrightarrow>
     hci_step h HciMoves (h\<lparr>h_pc := HciDone, h_outClosed := True\<rparr>)"
| hci_again: "h_pc h = HciRead \<Longrightarrow> hci_step h HciMoves (h\<lparr>h_pc := HciPoll\<rparr>)"
| hci_reads: "h_pc h = HciRead \<Longrightarrow> length f \<le> 1024 \<Longrightarrow>
     \<not> (h_ctxDone h \<and> 64 \<le> length (h_out h) \<and>
        hci_packet (h_handle h) (go_copy (h_buf h) f) (length f) \<noteq> None) \<Longrightarrow>
     hci_step h (HciReads f) (hci_forward h f)"
| hci_select_done: "h_pc h = HciRead \<Longrightarrow> length f \<le> 1024 \<Longrightarrow> h_ctxDone h \<Longrightarrow>
     hci_packet (h_handle h) (go_copy (h_buf h) f) (length f) \<noteq> None \<Longrightarrow>
     hci_step h (HciReads f) (h\<lparr>h_buf := go_copy (h_buf h) f, h_pc := HciDone, h_outClosed := True\<rparr>)"

text \<open>The specification: the bodies of the frames that are notifications on the handle.\<close>

fun notification_bodies :: "u16 \<Rightarrow> byte list list \<Rightarrow> byte list list" where
  "notification_bodies vh [] = []"
| "notification_bodies vh (f # fs) =
     (case hci_packet vh f (length f) of
        None \<Rightarrow> notification_bodies vh fs
      | Some body \<Rightarrow> body # notification_bodies vh fs)"

lemma notification_bodies_append:
  "notification_bodies vh (a @ b) = notification_bodies vh a @ notification_bodies vh b"
  by (induction a) (auto split: option.split)

lemma hci_packet_buffer:
  assumes "length f \<le> length buf"
  shows "hci_packet vh (go_copy buf f) (length f) = hci_packet vh f (length f)"
proof -
  have "go_copy f f = f" by (simp add: go_copy_full)
  then have "hci_packet vh (go_copy buf f) (length f) = Some b \<longleftrightarrow> hci_packet vh f (length f) = Some b" for b
    using hci_packet_fresh [OF assms, of vh b] hci_packet_fresh [of f f vh b] by simp
  then show ?thesis by (metis not_None_eq)
qed

definition hci_inv :: "hci \<Rightarrow> bool" where
  "hci_inv h \<longleftrightarrow>
     length (h_buf h) = 1024 \<and> length (h_out h) \<le> 64 \<and> (h_outClosed h \<longleftrightarrow> h_pc h = HciDone) \<and>
     suffix (h_out h) (h_sent h) \<and>
     subseq (h_sent h) (notification_bodies (h_handle h) (h_frames h)) \<and>
     length (notification_bodies (h_handle h) (h_frames h)) = length (h_sent h) + h_dropped h"

lemma hci_forward_inv:
  assumes "hci_inv h" "h_pc h = HciRead" "length f \<le> 1024"
  shows "hci_inv (hci_forward h f)"
proof -
  have "hci_packet (h_handle h) (go_copy (h_buf h) f) (length f) = hci_packet (h_handle h) f (length f)"
    using assms by (intro hci_packet_buffer) (simp add: hci_inv_def)
  with assms show ?thesis
    by (auto simp: hci_inv_def hci_forward_def Let_def notification_bodies_append suffix_def
        intro: subseq_rev_drop_many split: option.split)
qed

interpretation hci: step_invariant "\<lambda>h. \<exists>vh. h = hci_start vh" hci_step hci_inv
proof unfold_locales
  fix h assume "\<exists>vh. h = hci_start vh"
  then show "hci_inv h" by (auto simp: hci_inv_def hci_start_def)
next
  fix h a h' assume inv: "hci_inv h" and "hci_step h a h'"
  from this(2) show "hci_inv h'"
  proof cases
    case (hci_reads f)
    with hci_forward_inv [OF inv] show ?thesis by blast
  qed (use inv in \<open>auto simp: hci_inv_def dest: suffix_ConsD\<close>)
qed

abbreviation hci_reachable :: "hci \<Rightarrow> bool" where
  "hci_reachable \<equiv> reachable (\<lambda>h. \<exists>vh. h = hci_start vh) hci_step"

text \<open>
  The reader's own steps after its context is done: it checks the context before every poll, so
  at most one packet is still read.
\<close>

definition hci_own :: "hci \<Rightarrow> hci_action \<Rightarrow> hci \<Rightarrow> bool" where
  "hci_own h a h' \<longleftrightarrow> h_ctxDone h \<and> a \<noteq> HciReceives \<and> a \<noteq> HciContextDone \<and> hci_step h a h'"

fun hci_rank :: "hci_pc \<Rightarrow> nat" where
  "hci_rank HciPoll = 1"
| "hci_rank HciRead = 4"
| "hci_rank HciDone = 0"

text \<open>A read sends at most one packet on; what it sends is paid for by the rank.\<close>

lemma hci_own_rank:
  assumes "hci_own h a h'"
  shows "hci_rank (h_pc h') + 2 * length (drop (length (h_sent h)) (h_sent h')) < hci_rank (h_pc h) \<and> h_ctxDone h'"
proof -
  from assms have "hci_step h a h'" "h_ctxDone h" "a \<noteq> HciReceives" "a \<noteq> HciContextDone"
    by (simp_all add: hci_own_def)
  then show ?thesis by cases (auto simp: hci_forward_def Let_def split: option.split)
qed

lemma hci_progress:
  assumes "h_ctxDone h" "h_pc h \<noteq> HciDone"
  shows "\<exists>h'. hci_own h HciMoves h'"
  using assms by (cases "h_pc h") (auto simp: hci_own_def intro: hci_cancelled hci_again)

interpretation hci_end: step_terminates hci_own "\<lambda>h. hci_rank (h_pc h)" h_ctxDone "\<lambda>h. h_pc h = HciDone"
proof unfold_locales
  show "hci_rank (h_pc h') < hci_rank (h_pc h)" if "hci_own h a h'" for h a h'
    using hci_own_rank [OF that] by simp
  show "h_ctxDone h'" if "hci_own h a h'" for h a h' using hci_own_rank [OF that] by simp
  show "\<exists>a h'. hci_own h a h'" if "h_ctxDone h" "h_pc h \<noteq> HciDone" for h
    using hci_progress [OF that] by blast
qed

subsection \<open>tinygo: the callback and the closing goroutine\<close>

record tiny =
  t_out :: "byte list list"
  t_closed :: bool
  t_ctxDone :: bool
  t_panicked :: bool
  t_calls :: "byte list list"
  t_sent :: "byte list list"

datatype tiny_action = TinyCallback "byte list" | TinyContextDone | TinyCloses | TinyReceives

definition tiny_start :: tiny where
  "tiny_start =
     \<lparr>t_out = [], t_closed = False, t_ctxDone = False, t_panicked = False, t_calls = [], t_sent = []\<rparr>"

text \<open>
  The callback copies the buffer and tries to send: on a closed channel the send panics, on a
  full one the default branch drops.
\<close>

definition tiny_callback :: "byte list \<Rightarrow> tiny \<Rightarrow> tiny" where
  "tiny_callback buf t =
     (let packet = go_copy (replicate (length buf) 0) buf;
          t = t\<lparr>t_calls := t_calls t @ [buf]\<rparr>
      in if t_closed t then t\<lparr>t_panicked := True\<rparr>
         else if length (t_out t) < 64 then t\<lparr>t_out := t_out t @ [packet], t_sent := t_sent t @ [packet]\<rparr>
         else t)"

inductive tiny_step :: "tiny \<Rightarrow> tiny_action \<Rightarrow> tiny \<Rightarrow> bool" where
  tiny_calls: "\<not> t_panicked t \<Longrightarrow> tiny_step t (TinyCallback buf) (tiny_callback buf t)"
| tiny_context: "\<not> t_panicked t \<Longrightarrow> tiny_step t TinyContextDone (t\<lparr>t_ctxDone := True\<rparr>)"
| tiny_closes: "\<not> t_panicked t \<Longrightarrow> t_ctxDone t \<Longrightarrow> \<not> t_closed t \<Longrightarrow>
     tiny_step t TinyCloses (t\<lparr>t_closed := True\<rparr>)"
| tiny_receives: "\<not> t_panicked t \<Longrightarrow> t_out t = p # ps \<Longrightarrow> tiny_step t TinyReceives (t\<lparr>t_out := ps\<rparr>)"

definition tiny_inv :: "tiny \<Rightarrow> bool" where
  "tiny_inv t \<longleftrightarrow> subseq (t_sent t) (t_calls t) \<and> length (t_out t) \<le> 64 \<and>
     (t_closed t \<longrightarrow> t_ctxDone t) \<and> (t_panicked t \<longrightarrow> t_closed t)"

interpretation tiny: step_invariant "\<lambda>t. t = tiny_start" tiny_step tiny_inv
proof unfold_locales
  fix t a t' assume "tiny_inv t" and "tiny_step t a t'"
  from this(2,1) show "tiny_inv t'"
    by cases (auto simp: tiny_inv_def tiny_callback_def Let_def go_copy_full intro: subseq_rev_drop_many)
qed (simp add: tiny_inv_def tiny_start_def)

abbreviation tiny_reachable :: "tiny \<Rightarrow> bool" where
  "tiny_reachable \<equiv> reachable (\<lambda>t. t = tiny_start) tiny_step"

text \<open>A callback after the context is done and the channel closed panics.\<close>

lemma tiny_panics: "\<exists>t. tiny_reachable t \<and> t_panicked t"
proof -
  let ?c = "tiny_start\<lparr>t_ctxDone := True\<rparr>" let ?d = "?c\<lparr>t_closed := True\<rparr>"
  have "tiny_reachable tiny_start" by (rule reach_start) simp
  then have "tiny_reachable ?c" by (rule reach_step) (rule tiny_context, simp add: tiny_start_def)
  then have "tiny_reachable ?d" by (rule reach_step) (rule tiny_closes, simp_all add: tiny_start_def)
  then have "tiny_reachable (tiny_callback [] ?d)"
    by (rule reach_step) (rule tiny_calls, simp add: tiny_start_def)
  moreover have "t_panicked (tiny_callback [] ?d)" by (simp add: tiny_callback_def)
  ultimately show ?thesis by blast
qed

end
