(* ===== verification/Ble_Scan.thy ===== *)
theory Ble_Scan
  imports Advertisement Ble_Gatt
begin

section \<open>ble/scanner_linux.go and scanner_tinygo.go: scanning\<close>

text \<open>
  Both platforms turn what their stack reports into a \<open>ScanResult\<close> or nothing. On Linux the
  report is the accumulated properties of a D-Bus object: the known devices are looked at once
  at the start, then the signals one by one, with a map from paths to properties that is the
  loop's state. On tinygo it is one advertisement. The address of a result is the D-Bus path
  and the MAC string, or tinygo's address, which is a parameter type.
\<close>

record ScanFilter =
  f_MeshName :: string
  f_NetworkID :: u32
  f_GatewayOnly :: bool

record 'a ScanResult =
  r_Advertisement :: Advertisement
  r_Address :: 'a
  r_RSSI :: "16 word"

subsection \<open>The specification of the filter\<close>

text \<open>What a filter asks of an advertisement and its local name: an empty criterion asks nothing.\<close>

definition matches :: "ScanFilter \<Rightarrow> Advertisement \<Rightarrow> bool" where
  "matches flt adv \<longleftrightarrow>
     (f_MeshName flt = [] \<or> MeshName adv = f_MeshName flt) \<and>
     (f_NetworkID flt = 0 \<or> NetworkID adv = f_NetworkID flt) \<and>
     (f_GatewayOnly flt \<longrightarrow> DeviceType adv = DeviceTypeGateway)"

definition scanned :: "ScanFilter \<Rightarrow> string \<Rightarrow> byte list \<Rightarrow> Advertisement option" where
  "scanned flt name data =
     (case ParseAdvertisement data of
        None \<Rightarrow> None
      | Some adv \<Rightarrow> let adv = adv\<lparr>MeshName := name\<rparr> in if matches flt adv then Some adv else None)"

subsection \<open>Linux\<close>

text \<open>
  \<open>last_index\<close> is \<open>strings.LastIndex\<close>, from the right; \<open>macFromPath\<close> takes what follows the last
  \<open>/dev_\<close> and replaces the underscores.
\<close>

fun last_index :: "string \<Rightarrow> string \<Rightarrow> nat \<Rightarrow> nat option" where
  "last_index s sub 0 = (if take (length sub) s = sub then Some 0 else None)"
| "last_index s sub (Suc i) =
     (if take (length sub) (drop (Suc i) s) = sub then Some (Suc i) else last_index s sub i)"

definition macFromPath :: "ObjectPath \<Rightarrow> string" where
  "macFromPath s =
     (case last_index s ''/dev_'' (length s) of
        None \<Rightarrow> []
      | Some i \<Rightarrow> map (\<lambda>c. if c = CHR ''_'' then CHR '':'' else c) (drop (i + 5) s))"

definition mergeProps :: "Properties \<Rightarrow> Properties \<Rightarrow> Properties" where
  "mergeProps a b = a ++ b"

definition as_string :: "Variant option \<Rightarrow> string" where
  "as_string v = (case v of Some (VString s) \<Rightarrow> s | _ \<Rightarrow> [])"

text \<open>\<open>maybeEmit\<close>: the result it sends, if it sends one.\<close>

definition maybeEmit ::
    "ObjectPath \<Rightarrow> Properties \<Rightarrow> ScanFilter \<Rightarrow> (ObjectPath \<times> string) ScanResult option" where
  "maybeEmit path props flt =
     (case props ''ManufacturerData'' of
        Some (VData mfg) \<Rightarrow>
          (case mfg ManufacturerIDSkytone of
             Some (VBytes mfgData) \<Rightarrow>
               let name = as_string (props ''Name'')
               in if f_MeshName flt \<noteq> [] \<and> name \<noteq> f_MeshName flt then None
                  else
                    (case ParseManufacturerData ManufacturerIDSkytone mfgData of
                       Inl _ \<Rightarrow> None
                     | Inr adv \<Rightarrow>
                         let adv = adv\<lparr>MeshName := name\<rparr>
                         in if f_NetworkID flt \<noteq> 0 \<and> NetworkID adv \<noteq> f_NetworkID flt then None
                            else if f_GatewayOnly flt \<and> DeviceType adv \<noteq> DeviceTypeGateway then None
                            else
                              let mac = as_string (props ''Address'');
                                  mac = (if mac = [] then macFromPath path else mac);
                                  rssi = (case props ''RSSI'' of Some (VInt16 r) \<Rightarrow> r | _ \<Rightarrow> 0)
                              in Some \<lparr>r_Advertisement = adv, r_Address = (path, mac), r_RSSI = rssi\<rparr>)
           | _ \<Rightarrow> None)
      | _ \<Rightarrow> None)"

text \<open>
  The signals the loop understands: an object added, with its interfaces, and properties of an
  interface changed on a path. Anything else is \<open>OtherSignal\<close>. \<open>decode_signal\<close> is how the code tells
  them apart, on a signal as D-Bus delivers it (\<open>None\<close> for nil): the name, the length of the body, and
  type assertions on its values whose failure gives the zero value.
\<close>

datatype signal =
    InterfacesAdded ObjectPath Interfaces
  | PropertiesChanged ObjectPath string Properties
  | OtherSignal

datatype sig_value =
    SigPath ObjectPath
  | SigInterfaces Interfaces
  | SigString string
  | SigProperties Properties
  | SigOther

record dbus_signal =
  sig_Name :: string
  sig_Path :: ObjectPath
  sig_Body :: "sig_value list"

definition decode_signal :: "dbus_signal option \<Rightarrow> signal" where
  "decode_signal sig =
     (case sig of
        None \<Rightarrow> OtherSignal
      | Some sig \<Rightarrow>
          if sig_Name sig = propInterfacesAdded then
            if length (sig_Body sig) < 2 then OtherSignal
            else
              let path = (case sig_Body sig ! 0 of SigPath p \<Rightarrow> p | _ \<Rightarrow> []);
                  ifs = (case sig_Body sig ! 1 of SigInterfaces ifs \<Rightarrow> ifs | _ \<Rightarrow> Map.empty)
              in InterfacesAdded path ifs
          else if sig_Name sig = propPropertiesChang then
            if length (sig_Body sig) < 2 then OtherSignal
            else
              let iface = (case sig_Body sig ! 0 of SigString s \<Rightarrow> s | _ \<Rightarrow> []);
                  changed = (case sig_Body sig ! 1 of SigProperties ps \<Rightarrow> ps | _ \<Rightarrow> Map.empty)
              in PropertiesChanged (sig_Path sig) iface changed
          else OtherSignal)"

text \<open>A signal as BlueZ emits it.\<close>

fun encode_signal :: "signal \<Rightarrow> dbus_signal option" where
  "encode_signal (InterfacesAdded path ifs) =
     Some \<lparr>sig_Name = propInterfacesAdded, sig_Path = [], sig_Body = [SigPath path, SigInterfaces ifs]\<rparr>"
| "encode_signal (PropertiesChanged path iface changed) =
     Some \<lparr>sig_Name = propPropertiesChang, sig_Path = path, sig_Body = [SigString iface, SigProperties changed]\<rparr>"
| "encode_signal OtherSignal = None"

lemma prop_names: "propPropertiesChang \<noteq> propInterfacesAdded"
  by (simp add: propPropertiesChang_def propInterfacesAdded_def go_const)

interpretation dbus_signals: codec "\<lambda>_. True" encode_signal "\<lambda>sig. Some (decode_signal sig)"
proof unfold_locales
  fix sig show "Some (decode_signal (encode_signal sig)) = Some sig"
    using prop_names by (cases sig) (auto simp: decode_signal_def Let_def)
qed

lemma decode_encode [simp]: "decode_signal (encode_signal sig) = sig"
  using dbus_signals.dec_enc [of sig] by simp

type_synonym scan_state = "ObjectPath \<Rightarrow> Properties"

definition emit_list :: "'a option \<Rightarrow> 'a list" where
  "emit_list r = (case r of None \<Rightarrow> [] | Some x \<Rightarrow> [x])"

fun scan_signal ::
    "ScanFilter \<Rightarrow> signal \<Rightarrow> scan_state \<Rightarrow> scan_state \<times> (ObjectPath \<times> string) ScanResult list" where
  "scan_signal flt (InterfacesAdded path ifs) st =
     (case ifs bluezDeviceIface of
        None \<Rightarrow> (st, [])
      | Some devProps \<Rightarrow>
          let merged = mergeProps (st path) devProps
          in (st(path := merged), emit_list (maybeEmit path merged flt)))"
| "scan_signal flt (PropertiesChanged path iface changed) st =
     (if iface \<noteq> bluezDeviceIface then (st, [])
      else
        let merged = mergeProps (st path) changed
        in (st(path := merged), emit_list (maybeEmit path merged flt)))"
| "scan_signal flt OtherSignal st = (st, [])"

fun scan_signals ::
    "ScanFilter \<Rightarrow> signal list \<Rightarrow> scan_state \<Rightarrow> scan_state \<times> (ObjectPath \<times> string) ScanResult list" where
  "scan_signals flt [] st = (st, [])"
| "scan_signals flt (sig # sigs) st =
     (case scan_signal flt sig st of
        (st', rs) \<Rightarrow> (case scan_signals flt sigs st' of (st'', rs') \<Rightarrow> (st'', rs @ rs')))"

text \<open>The devices known already, in the order the map is walked.\<close>

fun scan_seed :: "ScanFilter \<Rightarrow> Objects \<Rightarrow> (ObjectPath \<times> string) ScanResult list" where
  "scan_seed flt [] = []"
| "scan_seed flt ((path, ifs) # objs) =
     (case ifs bluezDeviceIface of
        None \<Rightarrow> []
      | Some devProps \<Rightarrow> emit_list (maybeEmit path devProps flt)) @ scan_seed flt objs"

text \<open>
  The goroutine: the known devices (if they can be had), then the signals from an empty map. It
  ends after the seed when the discovery cannot be started.
\<close>

definition scan_linux ::
    "ScanFilter \<Rightarrow> go_error + Objects \<Rightarrow> go_error option \<Rightarrow> signal list \<Rightarrow>
     (ObjectPath \<times> string) ScanResult list" where
  "scan_linux flt objs startErr sigs =
     (let seeded = (case objs of Inl _ \<Rightarrow> [] | Inr os \<Rightarrow> scan_seed flt os)
      in if startErr \<noteq> None then seeded
         else seeded @ snd (scan_signals flt sigs (\<lambda>_. Map.empty)))"

text \<open>
  \<open>scan\<close> itself: the discovery filter, the two match rules, the signal channel; then the
  goroutine, whose deferred calls stop the discovery (if it was started), remove both rules and
  the channel. \<open>sigs\<close> are the signals it handles before its context is done or the channel is
  closed.
\<close>

definition scan_rules :: "string list" where
  "scan_rules = [match_rule dbusObjectManager ''InterfacesAdded'', match_rule dbusProperties ''PropertiesChanged'']"

fun add_rules :: "'w Bus \<Rightarrow> string list \<Rightarrow> 'w \<Rightarrow> go_error option \<times> 'w" where
  "add_rules bus [] w = (None, w)"
| "add_rules bus (r # rs) w =
     (case AddMatch bus r w of
        (Some err, w) \<Rightarrow> (Some (Wrapf ''ble: AddMatch: %w'' [err]), w)
      | (None, w) \<Rightarrow> add_rules bus rs w)"

definition linux_scan :: "'w Bus \<Rightarrow> ObjectPath \<Rightarrow> 'w \<Rightarrow> go_error option \<times> 'w" where
  "linux_scan bus adapterPath w =
     (case SetDiscoveryFilter bus adapterPath ''le'' [UUID_String ServiceUUID] w of
        (Some err, w) \<Rightarrow> (Some (Wrapf ''ble: SetDiscoveryFilter: %w'' [err]), w)
      | (None, w) \<Rightarrow>
     case add_rules bus scan_rules w of
        (Some err, w) \<Rightarrow> (Some err, w)
      | (None, w) \<Rightarrow> (None, AddSignal bus w))"

definition scan_cleanup :: "'w Bus \<Rightarrow> 'w \<Rightarrow> 'w" where
  "scan_cleanup bus w = RemoveSignal bus (fold (\<lambda>r w. snd (RemoveMatch bus r w)) scan_rules w)"

definition scan_goroutine ::
    "'w Bus \<Rightarrow> ObjectPath \<Rightarrow> ScanFilter \<Rightarrow> signal list \<Rightarrow> 'w \<Rightarrow> (ObjectPath \<times> string) ScanResult list \<times> 'w" where
  "scan_goroutine bus adapterPath flt sigs w =
     (case getManagedObjects bus w of
        (objs, w) \<Rightarrow>
     case StartDiscovery bus adapterPath w of
        (startErr, w) \<Rightarrow>
          (scan_linux flt objs startErr sigs,
           scan_cleanup bus (if startErr = None then snd (StopDiscovery bus adapterPath w) else w)))"

subsection \<open>tinygo\<close>

record 'a TinyScan =
  ts_HasServiceUUID :: "UUID \<Rightarrow> bool"
  ts_LocalName :: string
  ts_ManufacturerData :: "(u16 \<times> byte list) list"
  ts_Address :: 'a
  ts_RSSI :: "16 word"

text \<open>The loop over the manufacturer data stops at the first entry of the company; nil is \<open>None\<close>.\<close>

fun first_mfg :: "(u16 \<times> byte list) list \<Rightarrow> byte list option" where
  "first_mfg [] = None"
| "first_mfg ((company, data) # mds) =
     (if company = ManufacturerIDSkytone then Some data else first_mfg mds)"

definition parseTinygoScanResult :: "'a TinyScan \<Rightarrow> ScanFilter \<Rightarrow> 'a ScanResult option" where
  "parseTinygoScanResult result flt =
     (if \<not> ts_HasServiceUUID result ServiceUUID then None
      else
        let localName = ts_LocalName result
        in if f_MeshName flt \<noteq> [] \<and> localName \<noteq> f_MeshName flt then None
           else
             (case first_mfg (ts_ManufacturerData result) of
                None \<Rightarrow> None
              | Some mfgData \<Rightarrow>
             case ParseManufacturerData ManufacturerIDSkytone mfgData of
                Inl _ \<Rightarrow> None
              | Inr adv \<Rightarrow>
                  let adv = adv\<lparr>MeshName := localName\<rparr>
                  in if f_NetworkID flt \<noteq> 0 \<and> NetworkID adv \<noteq> f_NetworkID flt then None
                     else if f_GatewayOnly flt \<and> DeviceType adv \<noteq> DeviceTypeGateway then None
                     else Some \<lparr>r_Advertisement = adv, r_Address = ts_Address result,
                                r_RSSI = ts_RSSI result\<rparr>))"

text \<open>
  The callback sends what the parser accepts; when the context is done the adapter's scan is
  stopped. \<open>stopped\<close> says whether the goroutine ended that way or by the scan's own return.
\<close>

fun tinygo_results :: "'a TinyScan list \<Rightarrow> ScanFilter \<Rightarrow> 'a ScanResult list" where
  "tinygo_results [] flt = []"
| "tinygo_results (result # results) flt =
     emit_list (parseTinygoScanResult result flt) @ tinygo_results results flt"

definition tinygo_scan ::
    "('w \<Rightarrow> go_error option \<times> 'w) \<Rightarrow> 'a TinyScan list \<Rightarrow> ScanFilter \<Rightarrow> bool \<Rightarrow> 'w \<Rightarrow> 'a ScanResult list \<times> 'w" where
  "tinygo_scan bt_StopScan results flt stopped w =
     (tinygo_results results flt, if stopped then snd (bt_StopScan w) else w)"

subsection \<open>Both implement the filter\<close>

lemma ParseManufacturerData_Skytone:
  "ParseManufacturerData ManufacturerIDSkytone data =
     (case ParseAdvertisement data of
        None \<Rightarrow> Inl (Errorf ''pigsydust: manufacturer data too short (%d bytes, need >= 15)'')
      | Some adv \<Rightarrow> Inr adv)"
  by (simp add: ParseManufacturerData_def go_const)

lemma parseTinygo_spec:
  assumes "ts_HasServiceUUID result ServiceUUID"
  shows "map_option r_Advertisement (parseTinygoScanResult result flt) =
     Option.bind (first_mfg (ts_ManufacturerData result)) (scanned flt (ts_LocalName result))"
  using assms
  by (auto simp: parseTinygoScanResult_def scanned_def matches_def ParseManufacturerData_Skytone Let_def
      split: option.splits)

lemma maybeEmit_spec:
  assumes "props ''ManufacturerData'' = Some (VData mfg)" "mfg ManufacturerIDSkytone = Some (VBytes data)"
  shows "map_option r_Advertisement (maybeEmit path props flt) = scanned flt (as_string (props ''Name'')) data"
  using assms
  by (auto simp: maybeEmit_def scanned_def matches_def ParseManufacturerData_Skytone Let_def
      split: option.splits)

lemma scanned_matches: "scanned flt name data = Some adv \<Longrightarrow> matches flt adv"
  by (auto simp: scanned_def Let_def split: option.splits if_splits)

lemma maybeEmit_matches:
  assumes "maybeEmit path props flt = Some r"
  shows "matches flt (r_Advertisement r)" "fst (r_Address r) = path"
proof -
  from assms obtain mfg data where
    p: "props ''ManufacturerData'' = Some (VData mfg)" "mfg ManufacturerIDSkytone = Some (VBytes data)"
    by (auto simp: maybeEmit_def split: option.splits Variant.splits)
  from maybeEmit_spec [of props mfg data path flt, OF p] assms show "matches flt (r_Advertisement r)"
    by (auto dest: sym intro: scanned_matches)
  from assms p show "fst (r_Address r) = path"
    by (auto simp: maybeEmit_def Let_def split: if_splits sum.splits)
qed

lemma scan_seed_matches: "r \<in> set (scan_seed flt objs) \<Longrightarrow> matches flt (r_Advertisement r)"
  by (induction flt objs rule: scan_seed.induct)
    (auto simp: emit_list_def intro: maybeEmit_matches(1) [OF sym] split: option.splits)

lemma scan_signals_matches:
  "r \<in> set (snd (scan_signals flt sigs st)) \<Longrightarrow> matches flt (r_Advertisement r)"
proof (induction sigs arbitrary: st)
  case (Cons sig sigs)
  obtain st' rs where s: "scan_signal flt sig st = (st', rs)" by (cases "scan_signal flt sig st")
  have "x \<in> set rs \<Longrightarrow> matches flt (r_Advertisement x)" for x
    using s by (cases sig)
      (auto simp: emit_list_def Let_def intro: maybeEmit_matches(1) [OF sym] maybeEmit_matches(1)
        split: option.splits if_splits)
  with Cons s show ?case by (auto split: prod.splits) (metis snd_conv)
qed simp

lemma scan_linux_matches:
  "r \<in> set (scan_linux flt objs startErr sigs) \<Longrightarrow> matches flt (r_Advertisement r)"
  by (auto simp: scan_linux_def Let_def dest: scan_seed_matches scan_signals_matches
      split: if_splits sum.splits)

lemma tinygo_results_matches:
  "r \<in> set (tinygo_results results flt) \<Longrightarrow> matches flt (r_Advertisement r)"
proof (induction results flt rule: tinygo_results.induct)
  case (2 result results flt)
  have "matches flt (r_Advertisement x)" if "parseTinygoScanResult result flt = Some x" for x
  proof -
    from that have "ts_HasServiceUUID result ServiceUUID"
      by (auto simp: parseTinygoScanResult_def split: if_splits)
    from parseTinygo_spec [OF this, of flt] that show ?thesis
      by (auto dest!: sym [of "Some _"] simp: bind_eq_Some_conv intro: scanned_matches)
  qed
  with 2 show ?case by (auto simp: emit_list_def split: option.splits)
qed simp

subsection \<open>A known device seen again\<close>

text \<open>
  The properties of the known devices are looked at but not put into the map. Until a signal
  brings the name, a known device has no name, and a filter on the mesh name drops it.
\<close>

lemma seeded_then_changed:
  assumes "f_MeshName flt \<noteq> []" "changed ''Name'' = None"
  shows "scan_linux flt (Inr objs) None [PropertiesChanged path bluezDeviceIface changed] =
           scan_seed flt objs"
  using assms
  by (auto simp: scan_linux_def mergeProps_def emit_list_def maybeEmit_def as_string_def Let_def
      split: option.splits Variant.splits)

subsection \<open>What a scan leaves on the bus\<close>

text \<open>A scan that was set up and has ended leaves rules and channels as they were.\<close>

lemma add_rules_None:
  assumes "bus_laws bus rules chans" "add_rules bus rs w = (None, w')"
  shows "rules w' = mset rs + rules w \<and> chans w' = chans w"
  using assms(2)
proof (induction rs arbitrary: w)
  case (Cons r rs)
  obtain e w1 where a: "AddMatch bus r w = (e, w1)" by fastforce
  with Cons.prems have "e = None" "add_rules bus rs w1 = (None, w')" by (auto split: option.splits)
  with Cons.IH [of w1] bus_laws_calls(1) [OF assms(1) a] show ?case by simp
qed simp

lemma linux_scan_rules:
  assumes "bus_laws bus rules chans" "linux_scan bus p w = (None, w')"
  shows "rules w' = mset scan_rules + rules w \<and> chans w' = Suc (chans w)"
  using assms(2) bus_laws_snd [OF assms(1)]
  by (auto simp: linux_scan_def split: option.splits prod.splits
      dest!: bus_laws_calls(7) [OF assms(1)] add_rules_None [OF assms(1)])

lemma remove_rules:
  assumes "bus_laws bus rules chans"
  shows "rules (fold (\<lambda>r w. snd (RemoveMatch bus r w)) rs w) = rules w - mset rs \<and>
     chans (fold (\<lambda>r w. snd (RemoveMatch bus r w)) rs w) = chans w"
proof (induction rs arbitrary: w)
  case (Cons r rs)
  show ?case by (simp add: Cons.IH bus_laws_snd [OF assms])
qed simp

lemma scan_goroutine_rules:
  assumes "bus_laws bus rules chans"
  shows "rules (snd (scan_goroutine bus p flt sigs w)) = rules w - mset scan_rules \<and>
     chans (snd (scan_goroutine bus p flt sigs w)) = chans w - 1"
proof -
  have m: "rules (snd (getManagedObjects bus w)) = rules w \<and> chans (snd (getManagedObjects bus w)) = chans w" for w
    by (simp add: getManagedObjects_state bus_laws_snd [OF assms])
  show ?thesis
    using m [of w] bus_laws_snd [OF assms] remove_rules [OF assms]
    by (auto simp: scan_goroutine_def scan_cleanup_def split: prod.splits dest!: bus_laws_calls(5) [OF assms])
qed

lemma scan_releases:
  assumes "bus_laws bus rules chans" "linux_scan bus p w = (None, w')"
  shows "rules (snd (scan_goroutine bus p flt sigs w')) = rules w \<and>
     chans (snd (scan_goroutine bus p flt sigs w')) = chans w"
  using linux_scan_rules [OF assms] scan_goroutine_rules [OF assms(1), of p flt sigs w'] by simp

text \<open>But when only the second rule is refused, the first one stays.\<close>

lemma linux_scan_leaks:
  assumes laws: "bus_laws bus rules chans"
    and "SetDiscoveryFilter bus p ''le'' [UUID_String ServiceUUID] w = (None, w1)"
    and "AddMatch bus (scan_rules ! 0) w1 = (None, w2)" "AddMatch bus (scan_rules ! 1) w2 = (Some err, w3)"
  shows "linux_scan bus p w = (Some (Wrapf ''ble: AddMatch: %w'' [err]), w3) \<and>
     rules w3 = add_mset (scan_rules ! 0) (rules w)"
  using assms bus_laws_calls(7) [OF laws assms(2)] bus_laws_calls(1) [OF laws assms(3)]
    bus_laws_calls(1) [OF laws assms(4)]
  by (simp add: linux_scan_def scan_rules_def)

subsection \<open>The MAC in a path\<close>

lemma last_index_suffix:
  assumes "\<And>j. 0 < j \<Longrightarrow> j \<le> n \<Longrightarrow> take (length sub) (drop (i + j) s) \<noteq> sub"
    and "take (length sub) (drop i s) = sub"
  shows "last_index s sub (i + n) = Some i"
  using assms
proof (induction n)
  case 0
  then show ?case by (cases i) simp_all
next
  case (Suc n)
  from Suc.prems(1) [of "Suc n"] have "take (length sub) (drop (Suc (i + n)) s) \<noteq> sub" by simp
  with Suc show ?case by simp
qed

lemma macFromPath_suffix:
  assumes "CHR ''/'' \<notin> set mac"
  shows "macFromPath (p @ ''/dev_'' @ mac) = map (\<lambda>c. if c = CHR ''_'' then CHR '':'' else c) mac"
proof -
  let ?s = "p @ ''/dev_'' @ mac"
  have "last_index ?s ''/dev_'' (length p + (5 + length mac)) = Some (length p)"
  proof (rule last_index_suffix)
    show "take (length ''/dev_'') (drop (length p) ?s) = ''/dev_''" by simp
    fix j :: nat assume "0 < j"
    then obtain k where j: "j = Suc k" by (cases j) auto
    show "take (length ''/dev_'') (drop (length p + j) ?s) \<noteq> ''/dev_''"
    proof
      assume eq: "take (length ''/dev_'') (drop (length p + j) ?s) = ''/dev_''"
      have "drop (length p + j) ?s = drop k (''dev_'' @ mac)" by (simp add: j)
      with eq have "take (length ''/dev_'') (drop k (''dev_'' @ mac)) = ''/dev_''" by (simp only:)
      then have "CHR ''/'' \<in> set (take (length ''/dev_'') (drop k (''dev_'' @ mac)))"
        by (simp only: list.set_intros)
      then have "CHR ''/'' \<in> set (drop k (''dev_'' @ mac))" by (rule in_set_takeD)
      then have "CHR ''/'' \<in> set (''dev_'' @ mac)" by (rule in_set_dropD)
      with assms show False by simp
    qed
  qed
  moreover have "length ?s = length p + (5 + length mac)" by simp
  ultimately show ?thesis by (simp only: macFromPath_def option.case) simp
qed

text \<open>A path as BlueZ builds it from a MAC gives that MAC's printed form back.\<close>

definition device_path :: "string \<Rightarrow> MACAddress \<Rightarrow> ObjectPath" where
  "device_path adapter m =
     adapter @ ''/dev_'' @ map (\<lambda>c. if c = CHR '':'' then CHR ''_'' else c) (MAC_String m)"

lemma upper_digit_plain: "n < 16 \<Longrightarrow> upper_digit n \<notin> {CHR ''/'', CHR ''_'', CHR '':''}"
proof -
  have "\<forall>n \<in> {..<16}. upper_digit n \<notin> {CHR ''/'', CHR ''_'', CHR '':''}"
    by (simp add: lessThan_nat_numeral lessThan_Suc upper_digit_def)
  then show "n < 16 \<Longrightarrow> upper_digit n \<notin> {CHR ''/'', CHR ''_'', CHR '':''}" by blast
qed

lemma MAC_String_chars: "c \<in> set (MAC_String m) \<Longrightarrow> c \<noteq> CHR ''/'' \<and> c \<noteq> CHR ''_''"
  using upper_digit_plain [OF unat_byte_div] upper_digit_plain
  by (auto simp: MAC_String_def fmt_02X_def)

lemma macFromPath_device_path: "macFromPath (device_path adapter m) = MAC_String m"
proof -
  have "CHR ''/'' \<notin> set (map (\<lambda>c. if c = CHR '':'' then CHR ''_'' else c) (MAC_String m))"
    using MAC_String_chars by (auto split: if_splits)
  from macFromPath_suffix [OF this] show ?thesis
    unfolding device_path_def
    using MAC_String_chars by (auto intro!: map_idI)
qed

end
