(* ===== verification/Scan_Steps.thy ===== *)
theory Scan_Steps
  imports Ble_Scan "HOL-Library.Sublist"
begin

section \<open>ble/scanner_linux.go and scanner_tinygo.go: the goroutines of a scan\<close>

text \<open>
  \<open>Ble_Scan\<close> says what a scan makes of its input. Here the goroutines that do it run step by step
  beside the caller, who takes the results from a channel of capacity 16 and may cancel the
  context at any point. A completed run is a run of \<open>scan_goroutine\<close>; a cancelled one loses
  results, but still ends and cleans up.
\<close>

type_synonym linux_result = "(ObjectPath \<times> string) ScanResult"

text \<open>Where the goroutine goes on after \<open>maybeEmit\<close>: the rest of the known devices, or the loop.\<close>

datatype scan_next = NextSeed Objects | NextSelect

datatype scan_pc =
    ScanObjects
  | ScanSeed Objects
  | ScanStart
  | ScanSelect
  | ScanEmit linux_result scan_next
  | ScanStop
  | ScanCleanup
  | ScanClose
  | ScanDone

text \<open>
  The ghost fields are the state of the bus at the start, the signals taken (decoded), and the results sent
  and received.
\<close>

record 'w scan =
  sc_w :: 'w
  sc_sigs :: "dbus_signal option list"
  sc_sigClosed :: bool
  sc_ctxDone :: bool
  sc_props :: scan_state
  sc_out :: "linux_result list"
  sc_outClosed :: bool
  sc_pc :: scan_pc
  sc_w0 :: 'w
  sc_taken :: "signal list"
  sc_sent :: "linux_result list"
  sc_received :: "linux_result list"

datatype scan_action = ScanSignal "dbus_signal option" | ScanSignalsClose | ScanContextDone | ScanReceives | ScanMoves

definition scan_begin :: "'w \<Rightarrow> 'w scan" where
  "scan_begin w =
     \<lparr>sc_w = w, sc_sigs = [], sc_sigClosed = False, sc_ctxDone = False, sc_props = (\<lambda>_. Map.empty),
      sc_out = [], sc_outClosed = False, sc_pc = ScanObjects, sc_w0 = w, sc_taken = [], sc_sent = [],
      sc_received = []\<rparr>"

fun scan_goto :: "scan_next \<Rightarrow> scan_pc" where
  "scan_goto (NextSeed objs) = ScanSeed objs"
| "scan_goto NextSelect = ScanSelect"

fun scan_emit :: "linux_result list \<Rightarrow> scan_next \<Rightarrow> scan_pc" where
  "scan_emit [] k = scan_goto k"
| "scan_emit (r # _) k = ScanEmit r k"

definition seed_result :: "ScanFilter \<Rightarrow> ObjectPath \<Rightarrow> Interfaces \<Rightarrow> linux_result list" where
  "seed_result flt path ifs =
     (case ifs bluezDeviceIface of
        None \<Rightarrow> []
      | Some devProps \<Rightarrow> emit_list (maybeEmit path devProps flt))"

inductive scan_step :: "'w Bus \<Rightarrow> ObjectPath \<Rightarrow> ScanFilter \<Rightarrow> 'w scan \<Rightarrow> scan_action \<Rightarrow> 'w scan \<Rightarrow> bool"
  for bus ap flt where
  scan_signals_arrive: "\<not> sc_sigClosed s \<Longrightarrow>
     scan_step bus ap flt s (ScanSignal sig) (s\<lparr>sc_sigs := sc_sigs s @ [sig]\<rparr>)"
| scan_signals_close: "scan_step bus ap flt s ScanSignalsClose (s\<lparr>sc_sigClosed := True\<rparr>)"
| scan_context: "scan_step bus ap flt s ScanContextDone (s\<lparr>sc_ctxDone := True\<rparr>)"
| scan_receives: "sc_out s = r # rs \<Longrightarrow>
     scan_step bus ap flt s ScanReceives (s\<lparr>sc_out := rs, sc_received := sc_received s @ [r]\<rparr>)"
| scan_objects: "sc_pc s = ScanObjects \<Longrightarrow> getManagedObjects bus (sc_w s) = (objs, w) \<Longrightarrow>
     scan_step bus ap flt s ScanMoves
       (s\<lparr>sc_w := w, sc_pc := (case objs of Inl _ \<Rightarrow> ScanStart | Inr os \<Rightarrow> ScanSeed os)\<rparr>)"
| scan_seeded: "sc_pc s = ScanSeed [] \<Longrightarrow> scan_step bus ap flt s ScanMoves (s\<lparr>sc_pc := ScanStart\<rparr>)"
| scan_seeds: "sc_pc s = ScanSeed ((path, ifs) # objs) \<Longrightarrow>
     scan_step bus ap flt s ScanMoves (s\<lparr>sc_pc := scan_emit (seed_result flt path ifs) (NextSeed objs)\<rparr>)"
| scan_starts: "sc_pc s = ScanStart \<Longrightarrow> StartDiscovery bus ap (sc_w s) = (None, w) \<Longrightarrow>
     scan_step bus ap flt s ScanMoves (s\<lparr>sc_w := w, sc_pc := ScanSelect\<rparr>)"
| scan_start_err: "sc_pc s = ScanStart \<Longrightarrow> StartDiscovery bus ap (sc_w s) = (Some err, w) \<Longrightarrow>
     scan_step bus ap flt s ScanMoves (s\<lparr>sc_w := w, sc_pc := ScanCleanup\<rparr>)"
| scan_cancelled: "sc_pc s = ScanSelect \<Longrightarrow> sc_ctxDone s \<Longrightarrow>
     scan_step bus ap flt s ScanMoves (s\<lparr>sc_pc := ScanStop\<rparr>)"
| scan_sigs_closed: "sc_pc s = ScanSelect \<Longrightarrow> sc_sigs s = [] \<Longrightarrow> sc_sigClosed s \<Longrightarrow>
     scan_step bus ap flt s ScanMoves (s\<lparr>sc_pc := ScanStop\<rparr>)"
| scan_takes: "sc_pc s = ScanSelect \<Longrightarrow> sc_sigs s = sig # sigs \<Longrightarrow>
     scan_signal flt (decode_signal sig) (sc_props s) = (props, rs) \<Longrightarrow>
     scan_step bus ap flt s ScanMoves
       (s\<lparr>sc_sigs := sigs, sc_taken := sc_taken s @ [decode_signal sig], sc_props := props,
          sc_pc := scan_emit rs NextSelect\<rparr>)"
| scan_sends: "sc_pc s = ScanEmit r k \<Longrightarrow> length (sc_out s) < 16 \<Longrightarrow>
     scan_step bus ap flt s ScanMoves
       (s\<lparr>sc_out := sc_out s @ [r], sc_sent := sc_sent s @ [r], sc_pc := scan_goto k\<rparr>)"
| scan_loses: "sc_pc s = ScanEmit r k \<Longrightarrow> sc_ctxDone s \<Longrightarrow>
     scan_step bus ap flt s ScanMoves (s\<lparr>sc_pc := scan_goto k\<rparr>)"
| scan_stops: "sc_pc s = ScanStop \<Longrightarrow>
     scan_step bus ap flt s ScanMoves (s\<lparr>sc_w := snd (StopDiscovery bus ap (sc_w s)), sc_pc := ScanCleanup\<rparr>)"
| scan_cleans: "sc_pc s = ScanCleanup \<Longrightarrow>
     scan_step bus ap flt s ScanMoves (s\<lparr>sc_w := scan_cleanup bus (sc_w s), sc_pc := ScanClose\<rparr>)"
| scan_closes: "sc_pc s = ScanClose \<Longrightarrow>
     scan_step bus ap flt s ScanMoves (s\<lparr>sc_outClosed := True, sc_pc := ScanDone\<rparr>)"

inductive_cases scan_stepE: "scan_step bus ap flt s a s'"

subsection \<open>What has been emitted\<close>

text \<open>What the emitted results have to be, and what of it is still to come at each point.\<close>

lemma scan_seed_Cons: "scan_seed flt ((path, ifs) # objs) = seed_result flt path ifs @ scan_seed flt objs"
  by (simp add: seed_result_def)

lemma scan_signals_snoc:
  "scan_signals flt (sigs @ [sig]) st =
     (case scan_signals flt sigs st of (st', rs) \<Rightarrow>
        (case scan_signal flt sig st' of (st'', rs') \<Rightarrow> (st'', rs @ rs')))"
  by (induction sigs arbitrary: st) (simp_all split: prod.splits)

fun scan_rest :: "ScanFilter \<Rightarrow> scan_pc \<Rightarrow> linux_result list" where
  "scan_rest flt (ScanSeed objs) = scan_seed flt objs"
| "scan_rest flt (ScanEmit r (NextSeed objs)) = r # scan_seed flt objs"
| "scan_rest flt (ScanEmit r NextSelect) = [r]"
| "scan_rest flt _ = []"

text \<open>
  The state of the bus at each point, as \<open>scan_goroutine\<close> threads it; \<open>v\<close> and \<open>u\<close> are the states
  after the objects were asked for and after the discovery was started.
\<close>

fun scan_world ::
    "'w Bus \<Rightarrow> ObjectPath \<Rightarrow> (go_error + Objects) \<times> 'w \<Rightarrow> go_error option \<times> 'w \<Rightarrow> 'w \<Rightarrow> scan_pc \<Rightarrow> 'w \<Rightarrow> bool" where
  "scan_world bus ap v u w0 ScanObjects w = (w = w0)"
| "scan_world bus ap v u w0 (ScanSeed _) w = (w = snd v)"
| "scan_world bus ap v u w0 (ScanEmit _ (NextSeed _)) w = (w = snd v)"
| "scan_world bus ap v u w0 ScanStart w = (w = snd v)"
| "scan_world bus ap v u w0 ScanCleanup w =
     (w = (if fst u = None then snd (StopDiscovery bus ap (snd u)) else snd u))"
| "scan_world bus ap v u w0 ScanClose w =
     (w = scan_cleanup bus (if fst u = None then snd (StopDiscovery bus ap (snd u)) else snd u))"
| "scan_world bus ap v u w0 ScanDone w =
     (w = scan_cleanup bus (if fst u = None then snd (StopDiscovery bus ap (snd u)) else snd u))"
| "scan_world bus ap v u w0 _ w = (w = snd u \<and> fst u = None)"

text \<open>Before the objects are known nothing is due; before the loop no signal has been taken.\<close>

fun before_loop :: "scan_pc \<Rightarrow> bool" where
  "before_loop ScanObjects = True"
| "before_loop (ScanSeed _) = True"
| "before_loop (ScanEmit _ (NextSeed _)) = True"
| "before_loop ScanStart = True"
| "before_loop _ = False"

definition scan_due :: "'w Bus \<Rightarrow> ScanFilter \<Rightarrow> 'w scan \<Rightarrow> linux_result list" where
  "scan_due bus flt s =
     (if sc_pc s = ScanObjects then []
      else case fst (getManagedObjects bus (sc_w0 s)) of Inl _ \<Rightarrow> [] | Inr os \<Rightarrow> scan_seed flt os) @
     snd (scan_signals flt (sc_taken s) (\<lambda>_. Map.empty))"

definition scan_emitted :: "'w Bus \<Rightarrow> ScanFilter \<Rightarrow> 'w scan \<Rightarrow> bool" where
  "scan_emitted bus flt s \<longleftrightarrow>
     subseq (sc_sent s @ scan_rest flt (sc_pc s)) (scan_due bus flt s) \<and>
     (\<not> sc_ctxDone s \<longrightarrow> sc_sent s @ scan_rest flt (sc_pc s) = scan_due bus flt s)"

definition scan_state_ok :: "'w Bus \<Rightarrow> ObjectPath \<Rightarrow> ScanFilter \<Rightarrow> 'w scan \<Rightarrow> bool" where
  "scan_state_ok bus ap flt s \<longleftrightarrow>
     (let v = getManagedObjects bus (sc_w0 s); u = StartDiscovery bus ap (snd v)
      in scan_world bus ap v u (sc_w0 s) (sc_pc s) (sc_w s) \<and>
         (fst u \<noteq> None \<or> before_loop (sc_pc s) \<longrightarrow> sc_taken s = [])) \<and>
     sc_props s = fst (scan_signals flt (sc_taken s) (\<lambda>_. Map.empty)) \<and>
     (sc_pc s = ScanObjects \<longrightarrow> sc_sent s = [])"

definition scan_channel :: "'w scan \<Rightarrow> bool" where
  "scan_channel s \<longleftrightarrow> sc_sent s = sc_received s @ sc_out s \<and> length (sc_out s) \<le> 16 \<and>
     (sc_outClosed s \<longleftrightarrow> sc_pc s = ScanDone)"

definition scan_inv :: "'w Bus \<Rightarrow> ObjectPath \<Rightarrow> ScanFilter \<Rightarrow> 'w scan \<Rightarrow> bool" where
  "scan_inv bus ap flt s \<longleftrightarrow> scan_emitted bus flt s \<and> scan_state_ok bus ap flt s \<and> scan_channel s"

lemma scan_emit_simps [simp]:
  "scan_rest flt (scan_goto k) = (case k of NextSeed objs \<Rightarrow> scan_seed flt objs | NextSelect \<Rightarrow> [])"
  "scan_goto k \<noteq> ScanObjects" "scan_goto k \<noteq> ScanDone" "scan_emit rs k \<noteq> ScanObjects" "scan_emit rs k \<noteq> ScanDone"
  "before_loop (scan_goto k) \<longleftrightarrow> k \<noteq> NextSelect" "before_loop (scan_emit rs k) \<longleftrightarrow> k \<noteq> NextSelect"
  by (cases k; cases rs; simp)+

lemma scan_rest_emit:
  "length rs \<le> 1 \<Longrightarrow> scan_rest flt (scan_emit rs k) = rs @ scan_rest flt (scan_goto k)"
  by (cases k; cases rs) auto

lemma scan_rest_Emit: "scan_rest flt (ScanEmit r k) = r # scan_rest flt (scan_goto k)"
  by (cases k) simp_all

lemma one_result: "length (emit_list x) \<le> 1" "length (seed_result flt path ifs) \<le> 1"
  by (auto simp: emit_list_def seed_result_def split: option.split)

lemma scan_signal_one: "scan_signal flt sig st = (st', rs) \<Longrightarrow> length rs \<le> 1"
  using one_result(1) by (cases sig) (auto simp: Let_def split: option.splits if_splits)

lemma subseq_append_both: "subseq xs (as @ bs) \<Longrightarrow> subseq (xs @ rs) (as @ bs @ rs)"
  using list_emb_append_mono [of "(=)" xs "as @ bs" rs rs] by simp

lemma subseq_skip: "subseq (xs @ r # rs) ys \<Longrightarrow> subseq (xs @ rs) ys"
  using list_emb_append_mono [of "(=)" xs xs rs "r # rs"] subseq_order.trans by fastforce

text \<open>The steps that matter for what is emitted: the objects, a known device, a signal, a send and a loss.\<close>

lemma scan_step_emitted:
  assumes "scan_emitted bus flt s" "scan_state_ok bus ap flt s" "scan_step bus ap flt s a s'"
  shows "scan_emitted bus flt s'"
  using assms(3)
proof cases
  case (scan_objects objs w)
  with assms(2) have "sc_w s = sc_w0 s" "sc_taken s = []" "sc_sent s = []"
    by (simp_all add: scan_state_ok_def Let_def)
  with scan_objects show ?thesis
    by (auto simp: scan_emitted_def scan_due_def split: sum.split)
next
  case (scan_seeds path ifs objs)
  with assms(1) show ?thesis
    by (simp add: scan_emitted_def scan_due_def scan_rest_emit [OF one_result(2)] scan_seed_Cons del: scan_seed.simps(2))
next
  case (scan_takes sig sigs props rs)
  with assms(1,2) scan_signal_one [of flt "decode_signal sig" "sc_props s" props rs] show ?thesis
    by (auto simp: scan_emitted_def scan_due_def scan_state_ok_def scan_rest_emit scan_signals_snoc
        subseq_append_both split: prod.splits)
next
  case (scan_sends r k)
  with assms(1) show ?thesis by (simp add: scan_emitted_def scan_due_def scan_rest_Emit del: scan_emit_simps(1))
next
  case (scan_loses r k)
  with assms(1) show ?thesis
    by (auto simp: scan_emitted_def scan_due_def scan_rest_Emit simp del: scan_emit_simps(1)
        intro: subseq_skip)
qed (use assms(1) in \<open>auto simp: scan_emitted_def scan_due_def\<close>)

lemma scan_step_state:
  assumes "scan_state_ok bus ap flt s" "scan_step bus ap flt s a s'"
  shows "scan_state_ok bus ap flt s'"
  using assms(2)
proof cases
  case (scan_objects objs w)
  with assms(1) show ?thesis by (auto simp: scan_state_ok_def Let_def split: sum.split)
next
  case (scan_seeds path ifs objs)
  with assms(1) show ?thesis
    by (cases "seed_result flt path ifs") (auto simp: scan_state_ok_def Let_def)
next
  case (scan_takes sig sigs props rs)
  with assms(1) show ?thesis
    by (cases rs) (auto simp: scan_state_ok_def Let_def scan_signals_snoc split: prod.splits)
next
  case (scan_sends r k)
  with assms(1) show ?thesis by (cases k) (auto simp: scan_state_ok_def Let_def)
next
  case (scan_loses r k)
  with assms(1) show ?thesis by (cases k) (auto simp: scan_state_ok_def Let_def)
qed (use assms(1) in \<open>auto simp: scan_state_ok_def Let_def\<close>)

lemma scan_step_channel:
  assumes "scan_channel s" "scan_step bus ap flt s a s'"
  shows "scan_channel s'"
  using assms(2,1) by cases (auto simp: scan_channel_def split: sum.split)

abbreviation scan_reachable :: "'w Bus \<Rightarrow> ObjectPath \<Rightarrow> ScanFilter \<Rightarrow> 'w scan \<Rightarrow> bool" where
  "scan_reachable bus ap flt \<equiv> reachable (\<lambda>s. \<exists>w. s = scan_begin w) (scan_step bus ap flt)"

interpretation scan: step_invariant "\<lambda>s. \<exists>w. s = scan_begin w" "scan_step bus ap flt" "scan_inv bus ap flt"
  for bus :: "'w Bus" and ap flt
proof unfold_locales
  fix s :: "'w scan" assume "\<exists>w. s = scan_begin w"
  then show "scan_inv bus ap flt s"
    by (auto simp: scan_begin_def scan_inv_def scan_emitted_def scan_due_def scan_state_ok_def scan_channel_def Let_def)
qed (auto simp: scan_inv_def intro: scan_step_emitted scan_step_state scan_step_channel)

text \<open>A goroutine that has ended did what \<open>scan_goroutine\<close> does with the signals it took.\<close>

lemma scan_goroutine_parts:
  "fst (scan_goroutine bus ap flt sigs w) =
     scan_linux flt (fst (getManagedObjects bus w)) (fst (StartDiscovery bus ap (snd (getManagedObjects bus w)))) sigs"
  "snd (scan_goroutine bus ap flt sigs w) =
     (let u = StartDiscovery bus ap (snd (getManagedObjects bus w))
      in scan_cleanup bus (if fst u = None then snd (StopDiscovery bus ap (snd u)) else snd u))"
  by (simp_all add: scan_goroutine_def split_beta Let_def)

lemma scan_due_goroutine:
  assumes "scan_state_ok bus ap flt s" "sc_pc s \<noteq> ScanObjects"
  shows "scan_due bus flt s = fst (scan_goroutine bus ap flt (sc_taken s) (sc_w0 s))"
  using assms by (auto simp: scan_state_ok_def scan_goroutine_parts scan_linux_def scan_due_def Let_def)

lemma scan_done:
  assumes "scan_reachable bus ap flt s" "sc_pc s = ScanDone"
  shows "sc_w s = snd (scan_goroutine bus ap flt (sc_taken s) (sc_w0 s))"
    and "subseq (sc_received s @ sc_out s) (fst (scan_goroutine bus ap flt (sc_taken s) (sc_w0 s)))"
    and "\<not> sc_ctxDone s \<Longrightarrow>
      sc_received s @ sc_out s = fst (scan_goroutine bus ap flt (sc_taken s) (sc_w0 s))"
proof -
  have inv: "scan_emitted bus flt s" "scan_state_ok bus ap flt s" "scan_channel s"
    using scan.reachable_inv [OF assms(1)] by (simp_all add: scan_inv_def)
  from inv(2) assms(2) show "sc_w s = snd (scan_goroutine bus ap flt (sc_taken s) (sc_w0 s))"
    by (simp add: scan_state_ok_def scan_goroutine_parts Let_def)
  have "fst (scan_goroutine bus ap flt (sc_taken s) (sc_w0 s)) = scan_due bus flt s"
    using scan_due_goroutine [OF inv(2)] assms(2) by simp
  with inv(1,3) assms(2) show
    "subseq (sc_received s @ sc_out s) (fst (scan_goroutine bus ap flt (sc_taken s) (sc_w0 s)))"
    "\<not> sc_ctxDone s \<Longrightarrow>
      sc_received s @ sc_out s = fst (scan_goroutine bus ap flt (sc_taken s) (sc_w0 s))"
    by (simp_all add: scan_emitted_def scan_channel_def)
qed

subsection \<open>Every input has a run\<close>

text \<open>
  Conversely, a caller who takes each result as it comes sees all of them: for any signals the
  goroutine has a run that takes exactly these and ends when their channel is closed.
\<close>

definition scan_gives :: "linux_result list \<Rightarrow> 'w scan \<Rightarrow> 'w scan" where
  "scan_gives rs s = s\<lparr>sc_sent := sc_sent s @ rs, sc_received := sc_received s @ rs\<rparr>"

lemma scan_gives_simps [simp]:
  "sc_out (scan_gives rs s) = sc_out s" "sc_pc (scan_gives rs s) = sc_pc s" "sc_sigs (scan_gives rs s) = sc_sigs s"
  "sc_sigClosed (scan_gives rs s) = sc_sigClosed s" "sc_taken (scan_gives rs s) = sc_taken s"
  "sc_props (scan_gives rs s) = sc_props s" "sc_w (scan_gives rs s) = sc_w s" "sc_w0 (scan_gives rs s) = sc_w0 s"
  "sc_ctxDone (scan_gives rs s) = sc_ctxDone s" "sc_received (scan_gives rs s) = sc_received s @ rs"
  "scan_gives bs (scan_gives as s) = scan_gives (as @ bs) s" "scan_gives [] s = s"
  "scan_gives rs (s\<lparr>sc_pc := pc\<rparr>) = (scan_gives rs s)\<lparr>sc_pc := pc\<rparr>"
  by (simp_all add: scan_gives_def)

lemma run_emit:
  assumes "length rs \<le> 1" "sc_out s = []"
  shows "\<exists>as. steps (scan_step bus ap flt) (s\<lparr>sc_pc := scan_emit rs k\<rparr>) as ((scan_gives rs s)\<lparr>sc_pc := scan_goto k\<rparr>)"
proof (cases rs)
  case Nil
  then show ?thesis by (auto intro: steps_Nil)
next
  case (Cons r rs')
  with assms(1) have rs: "rs = [r]" by simp
  let ?s = "s\<lparr>sc_pc := ScanEmit r k\<rparr>"
  let ?t = "s\<lparr>sc_out := [r], sc_sent := sc_sent s @ [r], sc_pc := scan_goto k\<rparr>"
  have "scan_step bus ap flt ?s ScanMoves ?t" using scan_sends [of ?s r k bus ap flt] assms(2) by simp
  moreover have "scan_step bus ap flt ?t ScanReceives ((scan_gives rs s)\<lparr>sc_pc := scan_goto k\<rparr>)"
    using scan_receives [of ?t r "[]" bus ap flt] assms(2) by (cases s) (simp add: rs scan_gives_def)
  ultimately show ?thesis using rs by (auto intro!: exI steps_Cons steps_Nil)
qed

lemma run_seed:
  "sc_out s = [] \<Longrightarrow> \<exists>as. steps (scan_step bus ap flt) (s\<lparr>sc_pc := ScanSeed objs\<rparr>) as
     ((scan_gives (scan_seed flt objs) s)\<lparr>sc_pc := ScanStart\<rparr>)"
proof (induction objs arbitrary: s)
  case Nil
  have "scan_step bus ap flt (s\<lparr>sc_pc := ScanSeed []\<rparr>) ScanMoves (s\<lparr>sc_pc := ScanStart\<rparr>)"
    using scan_seeded [of "s\<lparr>sc_pc := ScanSeed []\<rparr>" bus ap flt] by simp
  then show ?case by (auto intro!: exI steps_Cons steps_Nil)
next
  case (Cons obj objs)
  obtain path ifs where obj: "obj = (path, ifs)" by (cases obj)
  let ?rs = "seed_result flt path ifs"
  have "scan_step bus ap flt (s\<lparr>sc_pc := ScanSeed (obj # objs)\<rparr>) ScanMoves
      (s\<lparr>sc_pc := scan_emit ?rs (NextSeed objs)\<rparr>)"
    using scan_seeds [of "s\<lparr>sc_pc := ScanSeed (obj # objs)\<rparr>" path ifs objs bus ap flt] by (simp add: obj)
  moreover from run_emit [OF one_result(2) Cons.prems] obtain as where
    "steps (scan_step bus ap flt) (s\<lparr>sc_pc := scan_emit ?rs (NextSeed objs)\<rparr>) as
       ((scan_gives ?rs s)\<lparr>sc_pc := ScanSeed objs\<rparr>)" by (metis scan_goto.simps(1))
  moreover from Cons.IH [of "scan_gives ?rs s"] Cons.prems obtain bs where
    "steps (scan_step bus ap flt) ((scan_gives ?rs s)\<lparr>sc_pc := ScanSeed objs\<rparr>) bs
       ((scan_gives (?rs @ scan_seed flt objs) s)\<lparr>sc_pc := ScanStart\<rparr>)" by auto
  ultimately show ?case
    unfolding obj scan_seed_Cons by (blast intro: steps_Cons steps_trans)
qed

lemma run_signals:
  assumes "sc_pc s = ScanSelect" "sc_sigs s = []" "sc_out s = []" "\<not> sc_sigClosed s"
    and "scan_signals flt sigs (sc_props s) = (props, rs)"
  shows "\<exists>as. steps (scan_step bus ap flt) s as
     ((scan_gives rs s)\<lparr>sc_taken := sc_taken s @ sigs, sc_props := props\<rparr>)"
  using assms
proof (induction sigs arbitrary: s rs)
  case Nil
  then have "(scan_gives rs s)\<lparr>sc_taken := sc_taken s @ [], sc_props := props\<rparr> = s"
    by (simp add: scan_gives_def)
  then show ?case by (auto simp: steps_none)
next
  case (Cons sig sigs)
  obtain st1 rs1 where 1: "scan_signal flt sig (sc_props s) = (st1, rs1)" by fastforce
  obtain rs2 where 2: "scan_signals flt sigs st1 = (props, rs2)" "rs = rs1 @ rs2"
    using Cons.prems(5) 1 by (auto split: prod.splits)
  let ?a = "s\<lparr>sc_sigs := [encode_signal sig]\<rparr>"
  let ?b = "s\<lparr>sc_taken := sc_taken s @ [sig], sc_props := st1\<rparr>"
  let ?c = "(scan_gives rs1 ?b)"
  have "scan_step bus ap flt s (ScanSignal (encode_signal sig)) ?a"
    using scan_signals_arrive [of s bus ap flt "encode_signal sig"] Cons.prems by simp
  moreover have "scan_step bus ap flt ?a ScanMoves (?b\<lparr>sc_pc := scan_emit rs1 NextSelect\<rparr>)"
    using scan_takes [of ?a "encode_signal sig" "[]" flt st1 rs1 bus ap] Cons.prems(1,2) 1 by (cases s) simp
  moreover have "?c\<lparr>sc_pc := ScanSelect\<rparr> = ?c" using Cons.prems(1) by (simp add: scan_gives_def)
  with run_emit [OF scan_signal_one [OF 1], of ?b bus ap flt NextSelect] Cons.prems(3) obtain as where
    "steps (scan_step bus ap flt) (?b\<lparr>sc_pc := scan_emit rs1 NextSelect\<rparr>) as ?c" by auto
  moreover from Cons.IH [of ?c rs2] Cons.prems 2 obtain bs where
    "steps (scan_step bus ap flt) ?c bs ((scan_gives rs s)\<lparr>sc_taken := sc_taken s @ sig # sigs, sc_props := props\<rparr>)"
    by (auto simp: scan_gives_def)
  ultimately show ?case by (blast intro: steps_Cons steps_trans)
qed

lemma scan_started:
  obtains s where "scan_reachable bus ap flt s" "sc_pc s = ScanStart" "sc_out s = []" "sc_sigs s = []"
    "\<not> sc_sigClosed s" "\<not> sc_ctxDone s" "sc_props s = (\<lambda>_. Map.empty)" "sc_taken s = []" "sc_w0 s = w"
    "sc_w s = snd (getManagedObjects bus w)"
proof -
  let ?s = "scan_begin w" let ?v = "getManagedObjects bus w"
  let ?t = "?s\<lparr>sc_w := snd ?v\<rparr>"
  have r: "scan_reachable bus ap flt ?s" by (rule reach_start) blast
  have m: "scan_step bus ap flt ?s ScanMoves
      (?t\<lparr>sc_pc := (case fst ?v of Inl _ \<Rightarrow> ScanStart | Inr os \<Rightarrow> ScanSeed os)\<rparr>)"
    using scan_objects [of ?s bus "fst ?v" "snd ?v" ap flt] by (simp add: scan_begin_def)
  note r' = reach_step [where step = "scan_step bus ap flt", OF r m]
  show thesis
  proof (cases "fst ?v")
    case (Inl err)
    from r' show thesis unfolding Inl by (intro that) (assumption, simp_all add: scan_begin_def)
  next
    case (Inr os)
    have "sc_out ?t = []" by (simp add: scan_begin_def)
    from run_seed [OF this, of bus ap flt os] obtain as where
      "steps (scan_step bus ap flt) (?t\<lparr>sc_pc := ScanSeed os\<rparr>) as ((scan_gives (scan_seed flt os) ?t)\<lparr>sc_pc := ScanStart\<rparr>)"
      by blast
    from reachable_steps [OF this] r' Inr
    have "scan_reachable bus ap flt ((scan_gives (scan_seed flt os) ?t)\<lparr>sc_pc := ScanStart\<rparr>)" by simp
    then show thesis by (intro that) (assumption, simp_all add: scan_begin_def)
  qed
qed

text \<open>From the cleanup to the end.\<close>

lemma scan_finishes:
  assumes "scan_reachable bus ap flt s" "sc_pc s = ScanCleanup"
  shows "\<exists>s'. scan_reachable bus ap flt s' \<and> sc_pc s' = ScanDone \<and> sc_ctxDone s' = sc_ctxDone s \<and>
     sc_taken s' = sc_taken s \<and> sc_w0 s' = sc_w0 s \<and> sc_out s' = sc_out s"
proof -
  let ?a = "s\<lparr>sc_w := scan_cleanup bus (sc_w s), sc_pc := ScanClose\<rparr>"
  have "scan_reachable bus ap flt ?a"
    by (rule reach_step [OF assms(1)]) (rule scan_cleans [OF assms(2)])
  then have "scan_reachable bus ap flt (?a\<lparr>sc_outClosed := True, sc_pc := ScanDone\<rparr>)"
    by (rule reach_step) (rule scan_closes, simp)
  then show ?thesis by (intro exI conjI) (assumption, simp_all)
qed

lemma scan_runs:
  "\<exists>s. scan_reachable bus ap flt s \<and> sc_pc s = ScanDone \<and> \<not> sc_ctxDone s \<and> sc_out s = [] \<and> sc_w0 s = w \<and>
     sc_taken s = (if fst (StartDiscovery bus ap (snd (getManagedObjects bus w))) = None then sigs else [])"
proof -
  obtain s where s: "scan_reachable bus ap flt s" "sc_pc s = ScanStart" "sc_out s = []" "sc_sigs s = []"
    "\<not> sc_sigClosed s" "\<not> sc_ctxDone s" "sc_props s = (\<lambda>_. Map.empty)" "sc_taken s = []" "sc_w0 s = w"
    "sc_w s = snd (getManagedObjects bus w)" by (rule scan_started [of bus ap flt w])
  obtain e w1 where e: "StartDiscovery bus ap (sc_w s) = (e, w1)" by fastforce
  show ?thesis
  proof (cases e)
    case (Some err)
    have "scan_reachable bus ap flt (s\<lparr>sc_w := w1, sc_pc := ScanCleanup\<rparr>)"
      by (rule reach_step [OF s(1)]) (rule scan_start_err [OF s(2)], simp add: e Some)
    from scan_finishes [OF this] s e Some show ?thesis by auto
  next
    case None
    let ?a = "s\<lparr>sc_w := w1, sc_pc := ScanSelect\<rparr>"
    have a: "scan_reachable bus ap flt ?a"
      by (rule reach_step [OF s(1)]) (rule scan_starts [OF s(2)], simp add: e None)
    obtain props rs where "scan_signals flt sigs (sc_props ?a) = (props, rs)" by fastforce
    from run_signals [of ?a flt sigs props rs bus ap, OF _ _ _ _ this] s obtain as where
      "steps (scan_step bus ap flt) ?a as ((scan_gives rs ?a)\<lparr>sc_taken := sigs, sc_props := props\<rparr>)" by auto
    from reachable_steps [OF this a]
    obtain b where b: "scan_reachable bus ap flt b" "sc_pc b = ScanSelect" "sc_sigs b = []" "sc_out b = []"
      "\<not> sc_ctxDone b" "sc_w0 b = w" "sc_taken b = sigs" using s by fastforce
    have "scan_reachable bus ap flt (b\<lparr>sc_sigClosed := True\<rparr>)"
      by (rule reach_step [OF b(1)]) (rule scan_signals_close)
    then have "scan_reachable bus ap flt (b\<lparr>sc_sigClosed := True, sc_pc := ScanStop\<rparr>)"
      by (rule reach_step) (use scan_sigs_closed [of "b\<lparr>sc_sigClosed := True\<rparr>" bus ap flt] b in simp)
    then have "scan_reachable bus ap flt (b\<lparr>sc_sigClosed := True, sc_pc := ScanStop,
        sc_w := snd (StopDiscovery bus ap (sc_w b)), sc_pc := ScanCleanup\<rparr>)"
      by (rule reach_step) (use scan_stops [of "b\<lparr>sc_sigClosed := True, sc_pc := ScanStop\<rparr>" bus ap flt] in simp)
    from scan_finishes [OF this] b s(10) e None show ?thesis by auto
  qed
qed

lemma scan_complete:
  "\<exists>s. scan_reachable bus ap flt s \<and> sc_pc s = ScanDone \<and> \<not> sc_ctxDone s \<and> sc_out s = [] \<and>
     (sc_received s, sc_w s) = scan_goroutine bus ap flt sigs w"
proof -
  obtain s where s: "scan_reachable bus ap flt s" "sc_pc s = ScanDone" "\<not> sc_ctxDone s" "sc_out s = []" "sc_w0 s = w"
    "sc_taken s = (if fst (StartDiscovery bus ap (snd (getManagedObjects bus w))) = None then sigs else [])"
    using scan_runs [of bus ap flt w sigs] by blast
  have "scan_goroutine bus ap flt (sc_taken s) w = scan_goroutine bus ap flt sigs w"
    by (rule prod_eqI) (simp_all add: scan_goroutine_parts scan_linux_def s(6))
  with scan_done [OF s(1,2)] s show ?thesis by (intro exI [of _ s]) (simp add: prod_eq_iff)
qed

subsection \<open>A cancelled scan ends\<close>

definition scan_own :: "'w Bus \<Rightarrow> ObjectPath \<Rightarrow> ScanFilter \<Rightarrow> 'w scan \<Rightarrow> scan_action \<Rightarrow> 'w scan \<Rightarrow> bool" where
  "scan_own bus ap flt s a s' \<longleftrightarrow> sc_ctxDone s \<and> a = ScanMoves \<and> scan_step bus ap flt s a s'"

definition known_objects :: "'w Bus \<Rightarrow> 'w \<Rightarrow> nat" where
  "known_objects bus w = (case fst (getManagedObjects bus w) of Inl _ \<Rightarrow> 0 | Inr os \<Rightarrow> length os)"

fun scan_pc_rank :: "nat \<Rightarrow> scan_pc \<Rightarrow> nat" where
  "scan_pc_rank n ScanObjects = 7 + 2 * n"
| "scan_pc_rank n (ScanSeed objs) = 6 + 2 * length objs"
| "scan_pc_rank n (ScanEmit _ (NextSeed objs)) = 7 + 2 * length objs"
| "scan_pc_rank n ScanStart = 5"
| "scan_pc_rank n (ScanEmit _ NextSelect) = 5"
| "scan_pc_rank n ScanSelect = 4"
| "scan_pc_rank n ScanStop = 3"
| "scan_pc_rank n ScanCleanup = 2"
| "scan_pc_rank n ScanClose = 1"
| "scan_pc_rank n ScanDone = 0"

definition scan_rank :: "'w Bus \<Rightarrow> 'w scan \<Rightarrow> nat" where
  "scan_rank bus s = 2 * length (sc_sigs s) + scan_pc_rank (known_objects bus (sc_w s)) (sc_pc s)"

lemma scan_emit_rank:
  "scan_pc_rank n (scan_goto (NextSeed objs)) = 6 + 2 * length objs" "scan_pc_rank n (scan_goto NextSelect) = 4"
  "scan_pc_rank n (scan_emit rs (NextSeed objs)) \<le> 7 + 2 * length objs" "scan_pc_rank n (scan_emit rs NextSelect) \<le> 5"
  by (cases rs; simp)+

interpretation scan_end: step_terminates "scan_own bus ap flt" "scan_rank bus" sc_ctxDone "\<lambda>s. sc_pc s = ScanDone"
  for bus :: "'w Bus" and ap flt
proof unfold_locales
  fix s a and s' :: "'w scan" assume "scan_own bus ap flt s a s'"
  then have own: "sc_ctxDone s" "a = ScanMoves" and step: "scan_step bus ap flt s a s'"
    unfolding scan_own_def by blast+
  from step own show "sc_ctxDone s'" by cases simp_all
  from step own(2) show "scan_rank bus s' < scan_rank bus s"
  proof cases
    case (scan_objects objs w)
    then show ?thesis by (auto simp: scan_rank_def known_objects_def split: sum.split)
  next
    case (scan_seeds path ifs objs)
    then show ?thesis
      using scan_emit_rank(3) [of "known_objects bus (sc_w s)" "seed_result flt path ifs" objs] by (simp add: scan_rank_def)
  next
    case (scan_takes sig sigs props rs)
    then show ?thesis
      using scan_emit_rank(4) [of "known_objects bus (sc_w s)" rs] by (simp add: scan_rank_def)
  next
    case (scan_sends r k)
    then show ?thesis by (cases k) (simp_all add: scan_rank_def)
  next
    case (scan_loses r k)
    then show ?thesis by (cases k) (simp_all add: scan_rank_def)
  qed (simp_all add: scan_rank_def)
next
  fix s :: "'w scan" assume ctx: "sc_ctxDone s" and "sc_pc s \<noteq> ScanDone"
  have "\<exists>s'. scan_step bus ap flt s ScanMoves s'"
  proof (cases "sc_pc s")
    case ScanObjects
    with scan_objects [OF this, of bus "fst (getManagedObjects bus (sc_w s))"] show ?thesis by (metis prod.collapse)
  next
    case (ScanSeed objs)
    then show ?thesis by (cases objs) (auto intro: scan_seeded scan_seeds)
  next
    case ScanStart
    obtain e w where "StartDiscovery bus ap (sc_w s) = (e, w)" by fastforce
    with ScanStart show ?thesis by (cases e) (auto intro: scan_starts scan_start_err)
  qed (use ctx \<open>sc_pc s \<noteq> ScanDone\<close> in \<open>auto intro: scan_cancelled scan_loses scan_stops scan_cleans scan_closes\<close>)
  with ctx show "\<exists>a s'. scan_own bus ap flt s a s'" by (auto simp: scan_own_def)
qed

lemma scan_own_steps:
  "steps (scan_own bus ap flt) s as s' \<Longrightarrow> scan_reachable bus ap flt s \<Longrightarrow>
   scan_reachable bus ap flt s' \<and> sc_w0 s' = sc_w0 s"
proof (induction rule: steps.induct)
  case (steps_Cons s a s' as s'')
  from steps_Cons.hyps(1) have step: "scan_step bus ap flt s a s'"
    unfolding scan_own_def by blast
  then have "sc_w0 s' = sc_w0 s" by cases simp_all
  with steps_Cons.IH reach_step [where step = "scan_step bus ap flt", OF steps_Cons.prems step] show ?case by simp
qed simp

subsection \<open>tinygo\<close>

text \<open>
  Three parties: the outer goroutine, which waits for the context or for the scan's return and
  then closes the channel; the inner one, in which \<open>bt.Scan\<close> runs; and the callback, which
  \<open>bt.Scan\<close> calls for one report after the other and which offers what the parser accepts. \<open>bt.Scan\<close>
  belongs to the third-party package: it may return at any time no callback runs. \<open>bt.StopScan\<close> does not wait
  for a running callback (it is documented to be callable from inside one). A send on the closed
  channel panics, also from a \<open>select\<close>.
\<close>

datatype tscan_pc = TWait | TStop | TClose | TDone

record 'a tscan =
  tc_ctxDone :: bool
  tc_out :: "'a ScanResult list"
  tc_closed :: bool
  tc_panicked :: bool
  tc_pc :: tscan_pc
  tc_callback :: "'a ScanResult option"
  tc_returned :: bool
  tc_reports :: "'a TinyScan list"
  tc_sent :: "'a ScanResult list"
  tc_received :: "'a ScanResult list"

datatype 'a tscan_action =
  TContextDone | TReceives | TReports "'a TinyScan" | TCallback | TReturns | TMoves

definition tscan_begin :: "'a tscan" where
  "tscan_begin =
     \<lparr>tc_ctxDone = False, tc_out = [], tc_closed = False, tc_panicked = False, tc_pc = TWait,
      tc_callback = None, tc_returned = False, tc_reports = [], tc_sent = [], tc_received = []\<rparr>"

inductive tscan_step :: "ScanFilter \<Rightarrow> 'a tscan \<Rightarrow> 'a tscan_action \<Rightarrow> 'a tscan \<Rightarrow> bool" for flt where
  t_context: "\<not> tc_panicked s \<Longrightarrow> tscan_step flt s TContextDone (s\<lparr>tc_ctxDone := True\<rparr>)"
| t_receives: "\<not> tc_panicked s \<Longrightarrow> tc_out s = r # rs \<Longrightarrow>
     tscan_step flt s TReceives (s\<lparr>tc_out := rs, tc_received := tc_received s @ [r]\<rparr>)"
| t_reports: "\<not> tc_panicked s \<Longrightarrow> \<not> tc_returned s \<Longrightarrow> tc_callback s = None \<Longrightarrow>
     tscan_step flt s (TReports result)
       (s\<lparr>tc_callback := parseTinygoScanResult result flt, tc_reports := tc_reports s @ [result]\<rparr>)"
| t_sends: "\<not> tc_panicked s \<Longrightarrow> tc_callback s = Some sr \<Longrightarrow> \<not> tc_closed s \<Longrightarrow> length (tc_out s) < 16 \<Longrightarrow>
     tscan_step flt s TCallback
       (s\<lparr>tc_out := tc_out s @ [sr], tc_sent := tc_sent s @ [sr], tc_callback := None\<rparr>)"
| t_send_closed: "\<not> tc_panicked s \<Longrightarrow> tc_callback s = Some sr \<Longrightarrow> tc_closed s \<Longrightarrow>
     tscan_step flt s TCallback (s\<lparr>tc_panicked := True\<rparr>)"
| t_loses: "\<not> tc_panicked s \<Longrightarrow> tc_callback s = Some sr \<Longrightarrow> tc_ctxDone s \<Longrightarrow>
     tscan_step flt s TCallback (s\<lparr>tc_callback := None\<rparr>)"
| t_returns: "\<not> tc_panicked s \<Longrightarrow> \<not> tc_returned s \<Longrightarrow> tc_callback s = None \<Longrightarrow>
     tscan_step flt s TReturns (s\<lparr>tc_returned := True\<rparr>)"
| t_cancelled: "\<not> tc_panicked s \<Longrightarrow> tc_pc s = TWait \<Longrightarrow> tc_ctxDone s \<Longrightarrow>
     tscan_step flt s TMoves (s\<lparr>tc_pc := TStop\<rparr>)"
| t_scan_ended: "\<not> tc_panicked s \<Longrightarrow> tc_pc s = TWait \<Longrightarrow> tc_returned s \<Longrightarrow>
     tscan_step flt s TMoves (s\<lparr>tc_pc := TClose\<rparr>)"
| t_stops: "\<not> tc_panicked s \<Longrightarrow> tc_pc s = TStop \<Longrightarrow> tscan_step flt s TMoves (s\<lparr>tc_pc := TClose\<rparr>)"
| t_closes: "\<not> tc_panicked s \<Longrightarrow> tc_pc s = TClose \<Longrightarrow>
     tscan_step flt s TMoves (s\<lparr>tc_closed := True, tc_pc := TDone\<rparr>)"

lemma tinygo_results_append:
  "tinygo_results (as @ bs) flt = tinygo_results as flt @ tinygo_results bs flt"
  by (induction as) simp_all

definition tscan_emitted :: "ScanFilter \<Rightarrow> 'a tscan \<Rightarrow> bool" where
  "tscan_emitted flt s \<longleftrightarrow>
     subseq (tc_sent s @ emit_list (tc_callback s)) (tinygo_results (tc_reports s) flt) \<and>
     (\<not> tc_ctxDone s \<longrightarrow> tc_sent s @ emit_list (tc_callback s) = tinygo_results (tc_reports s) flt) \<and>
     tc_sent s = tc_received s @ tc_out s \<and> length (tc_out s) \<le> 16"

text \<open>Without the context being done, the channel is closed only after the scan has returned.\<close>

definition tscan_closing :: "'a tscan \<Rightarrow> bool" where
  "tscan_closing s \<longleftrightarrow>
     (tc_returned s \<longrightarrow> tc_callback s = None) \<and> (tc_closed s \<longleftrightarrow> tc_pc s = TDone) \<and>
     (tc_pc s \<noteq> TWait \<longrightarrow> tc_ctxDone s \<or> tc_returned s) \<and> (tc_panicked s \<longrightarrow> tc_ctxDone s)"

definition tscan_inv :: "ScanFilter \<Rightarrow> 'a tscan \<Rightarrow> bool" where
  "tscan_inv flt s \<longleftrightarrow> tscan_emitted flt s \<and> tscan_closing s"

lemma tscan_step_emitted:
  assumes "tscan_emitted flt s" "tscan_step flt s a s'"
  shows "tscan_emitted flt s'"
  using assms(2)
proof cases
  case (t_reports result)
  let ?new = "emit_list (parseTinygoScanResult result flt)"
  from assms(1) t_reports have "subseq (tc_sent s) (tinygo_results (tc_reports s) flt)"
    by (auto simp: tscan_emitted_def emit_list_def)
  from list_emb_append_mono [OF this, of ?new ?new]
  have "subseq (tc_sent s @ ?new) (tinygo_results (tc_reports s @ [result]) flt)"
    by (simp add: tinygo_results_append)
  with t_reports assms(1) show ?thesis
    by (auto simp: tscan_emitted_def tinygo_results_append emit_list_def [of None])
next
  case (t_loses sr)
  with assms(1) show ?thesis
    using subseq_skip [of "tc_sent s" sr "[]"] by (auto simp: tscan_emitted_def emit_list_def)
qed (use assms(1) in \<open>auto simp: tscan_emitted_def emit_list_def\<close>)

lemma tscan_step_closing:
  assumes "tscan_closing s" "tscan_step flt s a s'"
  shows "tscan_closing s'"
  using assms(2,1) by cases (auto simp: tscan_closing_def)

interpretation tscan: step_invariant "\<lambda>s. s = tscan_begin" "tscan_step flt" "tscan_inv flt" for flt
proof unfold_locales
  fix s a and s' :: "'a tscan" assume "tscan_inv flt s" "tscan_step flt s a s'"
  then show "tscan_inv flt s'"
    using tscan_step_emitted tscan_step_closing by (auto simp: tscan_inv_def)
qed (simp add: tscan_inv_def tscan_begin_def tscan_emitted_def tscan_closing_def emit_list_def)

abbreviation tscan_reachable :: "ScanFilter \<Rightarrow> 'a tscan \<Rightarrow> bool" where
  "tscan_reachable flt \<equiv> reachable (\<lambda>s. s = tscan_begin) (tscan_step flt)"

text \<open>The outer goroutine of a cancelled scan: stop, close, end.\<close>

definition tscan_own :: "ScanFilter \<Rightarrow> 'a tscan \<Rightarrow> 'a tscan_action \<Rightarrow> 'a tscan \<Rightarrow> bool" where
  "tscan_own flt s a s' \<longleftrightarrow> a = TMoves \<and> tscan_step flt s a s'"

fun tscan_rank :: "tscan_pc \<Rightarrow> nat" where
  "tscan_rank TWait = 3"
| "tscan_rank TStop = 2"
| "tscan_rank TClose = 1"
| "tscan_rank TDone = 0"

interpretation tscan_end: step_terminates "tscan_own flt" "\<lambda>s. tscan_rank (tc_pc s)"
  "\<lambda>s. tc_ctxDone s \<and> \<not> tc_panicked s" "\<lambda>s. tc_pc s = TDone" for flt :: ScanFilter
proof unfold_locales
  fix s a and s' :: "'a tscan" assume "tscan_own flt s a s'"
  then have step: "tscan_step flt s a s'" "a = TMoves" unfolding tscan_own_def by blast+
  from step show "tscan_rank (tc_pc s') < tscan_rank (tc_pc s)" by cases simp_all
  assume "tc_ctxDone s \<and> \<not> tc_panicked s"
  with step show "tc_ctxDone s' \<and> \<not> tc_panicked s'" by cases simp_all
next
  fix s :: "'a tscan" assume "tc_ctxDone s \<and> \<not> tc_panicked s" "tc_pc s \<noteq> TDone"
  then have "\<exists>s'. tscan_step flt s TMoves s'"
    by (cases "tc_pc s") (auto intro: t_cancelled t_stops t_closes)
  then show "\<exists>a s'. tscan_own flt s a s'" by (auto simp: tscan_own_def)
qed

text \<open>A report that is being offered when the context ends can meet the closed channel.\<close>

lemma tscan_panics:
  assumes "parseTinygoScanResult (result :: 'a TinyScan) flt = Some sr"
  shows "\<exists>s :: 'a tscan. tscan_reachable flt s \<and> tc_panicked s"
proof -
  let ?a = "tscan_begin\<lparr>tc_callback := Some sr, tc_reports := [result]\<rparr>"
  let ?b = "?a\<lparr>tc_ctxDone := True\<rparr>"
  let ?c = "?b\<lparr>tc_pc := TStop\<rparr>" let ?d = "?c\<lparr>tc_pc := TClose\<rparr>"
  let ?e = "?d\<lparr>tc_closed := True, tc_pc := TDone\<rparr>"
  have "tscan_reachable flt tscan_begin" by (rule reach_start) simp
  then have "tscan_reachable flt ?a"
    by (rule reach_step) (use t_reports [of tscan_begin flt result] assms in \<open>simp add: tscan_begin_def\<close>)
  then have "tscan_reachable flt ?b" by (rule reach_step) (rule t_context, simp add: tscan_begin_def)
  then have "tscan_reachable flt ?c" by (rule reach_step) (rule t_cancelled; simp add: tscan_begin_def)
  then have "tscan_reachable flt ?d" by (rule reach_step) (use t_stops [of ?c flt] in \<open>simp add: tscan_begin_def\<close>)
  then have "tscan_reachable flt ?e" by (rule reach_step) (use t_closes [of ?d flt] in \<open>simp add: tscan_begin_def\<close>)
  then have "tscan_reachable flt (?e\<lparr>tc_panicked := True\<rparr>)"
    by (rule reach_step) (rule t_send_closed [where sr = sr], simp_all add: tscan_begin_def)
  then show ?thesis by (intro exI conjI) (assumption, simp)
qed

end
