(* ===== verification/Ble_Connect.thy ===== *)
theory Ble_Connect
  imports Ble_Scan
begin

section \<open>ble/adapter_linux.go and adapter_tinygo.go: connecting\<close>

text \<open>
  How a connection is made on either platform. What the bus and tinygo's device return are
  parameters; the signals and the timer that \<open>waitServicesResolved\<close> waits for are a list of
  events, and \<open>None\<close> is the function still waiting at its end. An address of the other platform
  fails the type assertion.
\<close>

datatype 'a Addr = LinuxAddr ObjectPath string | TinyAddr 'a

subsection \<open>Linux\<close>

text \<open>The first adapter in the object tree, as the map is walked.\<close>

fun first_adapter :: "Objects \<Rightarrow> go_error + ObjectPath" where
  "first_adapter [] = Inl (Errorf ''ble: no BlueZ adapter found (is bluetoothd running?)'')"
| "first_adapter ((path, ifs) # objs) =
     (if ifs bluezAdapterIface \<noteq> None then Inr path else first_adapter objs)"

definition findAdapter :: "'w Bus \<Rightarrow> 'w \<Rightarrow> (go_error + ObjectPath) \<times> 'w" where
  "findAdapter bus w =
     (case getManagedObjects bus w of
        (Inl err, w) \<Rightarrow> (Inl err, w)
      | (Inr objs, w) \<Rightarrow> (first_adapter objs, w))"

text \<open>
  \<open>NewAdapter\<close>: the system bus, the first adapter, and an attempt to power it on whose error is
  only logged. \<open>stopScan\<close> is one call on that adapter.
\<close>

definition linux_NewAdapter ::
    "('w \<Rightarrow> (go_error + 'w Bus) \<times> 'w) \<Rightarrow> 'w \<Rightarrow> (go_error + 'w Bus \<times> ObjectPath) \<times> 'w" where
  "linux_NewAdapter SystemBus w =
     (case SystemBus w of
        (Inl err, w) \<Rightarrow> (Inl (Wrapf ''ble: connecting to system bus: %w'' [err]), w)
      | (Inr bus, w) \<Rightarrow>
     case findAdapter bus w of
        (Inl err, w) \<Rightarrow> (Inl err, w)
      | (Inr path, w) \<Rightarrow>
          (Inr (bus, path), snd (SetProperty bus path bluezAdapterIface ''Powered'' (VBool True) w)))"

definition linux_stopScan :: "'w Bus \<Rightarrow> ObjectPath \<Rightarrow> 'w \<Rightarrow> go_error option \<times> 'w" where
  "linux_stopScan bus adapterPath w = StopDiscovery bus adapterPath w"

datatype wait_event = WaitContext go_error | WaitTimeout | WaitSignal signal

definition is_true :: "Variant option \<Rightarrow> bool" where
  "is_true v = (case v of Some (VBool b) \<Rightarrow> b | _ \<Rightarrow> False)"

fun wait_loop :: "ObjectPath \<Rightarrow> wait_event list \<Rightarrow> go_error option option" where
  "wait_loop path [] = None"
| "wait_loop path (WaitContext err # evs) = Some (Some err)"
| "wait_loop path (WaitTimeout # evs) =
     Some (Some (Errorf ''ble: timed out waiting for ServicesResolved''))"
| "wait_loop path (WaitSignal (PropertiesChanged p iface changed) # evs) =
     (if p \<noteq> path \<or> iface \<noteq> bluezDeviceIface then wait_loop path evs
      else if is_true (changed ''ServicesResolved'') then Some None
      else wait_loop path evs)"
| "wait_loop path (WaitSignal _ # evs) = wait_loop path evs"

definition wait_rule :: "ObjectPath \<Rightarrow> string" where
  "wait_rule path = match_rule dbusProperties ''PropertiesChanged'' @ '',path='' @ quoted path"

definition waitServicesResolved ::
    "'w Bus \<Rightarrow> ObjectPath \<Rightarrow> wait_event list \<Rightarrow> 'w \<Rightarrow> (go_error option \<times> 'w) option" where
  "waitServicesResolved bus path evs w =
     (case GetProperty bus path bluezDeviceIface ''ServicesResolved'' w of
        (v, w) \<Rightarrow>
          if (case v of Inr x \<Rightarrow> is_true (Some x) | Inl _ \<Rightarrow> False) then Some (None, w)
          else
            let matchRule = wait_rule path
            in case AddMatch bus matchRule w of
                 (Some err, w) \<Rightarrow> Some (Some (Wrapf ''ble: AddMatch ServicesResolved: %w'' [err]), w)
               | (None, w) \<Rightarrow>
                   (let w = AddSignal bus w
                    in map_option (\<lambda>e. (e, snd (RemoveMatch bus matchRule (RemoveSignal bus w))))
                         (wait_loop path evs)))"

text \<open>The characteristics below the device's path, by UUID; a later one replaces an earlier one.\<close>

definition starts_with :: "string \<Rightarrow> string \<Rightarrow> bool" where
  "starts_with s p \<longleftrightarrow> take (length p) s = p"

definition object_char :: "string \<Rightarrow> ObjectPath \<Rightarrow> Interfaces \<Rightarrow> UUID option" where
  "object_char pre path ifs =
     (if \<not> starts_with path pre then None
      else
        case ifs bluezGattCharIface of
          None \<Rightarrow> None
        | Some charProps \<Rightarrow>
            (case charProps ''UUID'' of
               None \<Rightarrow> None
             | Some uuidV \<Rightarrow>
                 (case parseUUIDString (as_string (Some uuidV)) of
                    Inl _ \<Rightarrow> None
                  | Inr u \<Rightarrow> Some u)))"

fun char_paths :: "string \<Rightarrow> Objects \<Rightarrow> (UUID \<Rightarrow> ObjectPath option) \<Rightarrow> (UUID \<Rightarrow> ObjectPath option)" where
  "char_paths pre [] m = m"
| "char_paths pre ((path, ifs) # objs) m =
     char_paths pre objs (case object_char pre path ifs of None \<Rightarrow> m | Some u \<Rightarrow> m(u \<mapsto> path))"

definition requireds :: "(UUID \<times> string) list" where
  "requireds = [(CharNotifyUUID, ''CHAR_NOTIFY''), (CharCmdUUID, ''CHAR_CMD''), (CharPairUUID, ''CHAR_PAIR'')]"

definition set_char :: "UUID \<Rightarrow> 'w charIO \<Rightarrow> 'w Connection \<Rightarrow> 'w Connection" where
  "set_char u io conn =
     (if u = CharNotifyUUID then conn\<lparr>charNotify := Some io\<rparr>
      else if u = CharCmdUUID then conn\<lparr>charCmd := Some io\<rparr>
      else if u = CharPairUUID then conn\<lparr>charPair := Some io\<rparr>
      else conn)"

text \<open>The loop over the required characteristics: the first one missing closes the connection.\<close>

fun fill_required ::
    "(ObjectPath \<Rightarrow> 'w charIO) \<Rightarrow> (UUID \<Rightarrow> ObjectPath option) \<Rightarrow> (UUID \<times> string) list \<Rightarrow>
     'w Connection \<Rightarrow> 'w \<Rightarrow> (go_error + 'w Connection) \<times> 'w" where
  "fill_required mk m [] conn w = (Inr conn, w)"
| "fill_required mk m ((u, name) # rs) conn w =
     (case m u of
        None \<Rightarrow>
          (case Connection_Close conn w of
             (_, _, w) \<Rightarrow> (Inl (Errorf (''ble: '' @ name @ '' characteristic not found'')), w))
      | Some path \<Rightarrow> fill_required mk m rs (set_char u (mk path) conn) w)"

definition linux_connect ::
    "'w Bus \<Rightarrow> 'w Sys \<Rightarrow> Advertisement \<Rightarrow> 'a Addr \<Rightarrow> wait_event list \<Rightarrow> 'w \<Rightarrow>
     ((go_error + 'w Connection) \<times> 'w) option" where
  "linux_connect bus sys adv addr evs w =
     (case addr of
        TinyAddr _ \<Rightarrow> Some (Inl (Errorf ''ble: unexpected address type %T''), w)
      | LinuxAddr path mac \<Rightarrow>
     case DeviceConnect bus path w of
        (Some err, w) \<Rightarrow> Some (Inl (Wrapf ''ble: Device1.Connect: %w'' [err]), w)
      | (None, w) \<Rightarrow>
     case waitServicesResolved bus path evs w of
        None \<Rightarrow> None
      | Some (Some err, w) \<Rightarrow> Some (Inl err, snd (DeviceDisconnect bus path w))
      | Some (None, w) \<Rightarrow>
     case getManagedObjects bus w of
        (Inl err, w) \<Rightarrow> Some (Inl err, snd (DeviceDisconnect bus path w))
      | (Inr objs, w) \<Rightarrow>
     let charByUUID = char_paths (path @ ''/'') objs Map.empty;
         conn = \<lparr>charNotify = None, charCmd = None, charPair = None, conn_gwMAC = AMAC adv,
                 conn_closer = FlagCloser (DeviceDisconnect bus path), conn_closed = False\<rparr>
     in Some (fill_required (newLinuxCharIO bus sys) charByUUID requireds conn w))"

subsection \<open>tinygo\<close>

type_synonym 'w TinyService = "UUID list \<Rightarrow> 'w \<Rightarrow> (go_error + 'w TinyChar list) \<times> 'w"

record 'w TinyDevice =
  td_DiscoverServices :: "UUID list \<Rightarrow> 'w \<Rightarrow> (go_error + 'w TinyService list) \<times> 'w"
  td_Disconnect :: "'w \<Rightarrow> go_error option \<times> 'w"

text \<open>The MAC of the device information service replaces the advertised one, if it can be read.\<close>

definition enrichMACFromDIS ::
    "'w TinyDevice \<Rightarrow> 'w Connection \<Rightarrow> 'w \<Rightarrow> go_error option \<times> 'w Connection \<times> 'w" where
  "enrichMACFromDIS device conn w =
     (case td_DiscoverServices device [disServiceUUID] w of
        (Inl _, w) \<Rightarrow> (Some (Errorf ''ble: DIS service not found''), conn, w)
      | (Inr [], w) \<Rightarrow> (Some (Errorf ''ble: DIS service not found''), conn, w)
      | (Inr (svc # _), w) \<Rightarrow>
     case svc [disModelNumberUUID] w of
        (Inl _, w) \<Rightarrow> (Some (Errorf ''ble: DIS model number not found''), conn, w)
      | (Inr [], w) \<Rightarrow> (Some (Errorf ''ble: DIS model number not found''), conn, w)
      | (Inr (ch # _), w) \<Rightarrow>
     case tiny_Read ch 32 w of
        (Inl err, w) \<Rightarrow> (Some (Wrapf ''ble: reading DIS model number: %w'' [err]), conn, w)
      | (Inr buf, w) \<Rightarrow>
     case ParseMAC (map (\<lambda>b. char_of (unat b)) buf) of
        Inl err \<Rightarrow> (Some err, conn, w)
      | Inr mac \<Rightarrow> (None, conn\<lparr>conn_gwMAC := mac\<rparr>, w))"

text \<open>\<open>NewAdapter\<close> on tinygo enables the default adapter.\<close>

definition tinygo_NewAdapter :: "('w \<Rightarrow> go_error option \<times> 'w) \<Rightarrow> 'w \<Rightarrow> go_error option \<times> 'w" where
  "tinygo_NewAdapter bt_Enable w = wrap_error ''ble: enabling adapter: %w'' (bt_Enable w)"

definition tinygo_connect ::
    "('a \<Rightarrow> 'w \<Rightarrow> (go_error + 'w TinyDevice) \<times> 'w) \<Rightarrow> Advertisement \<Rightarrow> 'a Addr \<Rightarrow> 'w \<Rightarrow>
     (go_error + 'w Connection) \<times> 'w" where
  "tinygo_connect bt_Connect adv addr w =
     (case addr of
        LinuxAddr _ _ \<Rightarrow> (Inl (Errorf ''ble: unexpected address type %T''), w)
      | TinyAddr ta \<Rightarrow>
     case bt_Connect ta w of
        (Inl err, w) \<Rightarrow> (Inl (Wrapf ''ble: connecting: %w'' [err]), w)
      | (Inr device, w) \<Rightarrow>
     case td_DiscoverServices device [MeshServiceUUID] w of
        (Inl err, w) \<Rightarrow> (Inl (Wrapf ''ble: discovering mesh service: %w'' [err]), snd (td_Disconnect device w))
      | (Inr [], w) \<Rightarrow> (Inl (Errorf ''ble: mesh service not found''), snd (td_Disconnect device w))
      | (Inr (svc # _), w) \<Rightarrow>
     case svc [CharNotifyUUID, CharCmdUUID, CharPairUUID] w of
        (Inl err, w) \<Rightarrow> (Inl (Wrapf ''ble: discovering characteristics: %w'' [err]), snd (td_Disconnect device w))
      | (Inr chars, w) \<Rightarrow>
     let conn = \<lparr>charNotify = None, charCmd = None, charPair = None, conn_gwMAC = AMAC adv,
                 conn_closer = PlainCloser (td_Disconnect device), conn_closed = False\<rparr>;
         conn = fold (\<lambda>ch. set_char (tiny_UUID ch) (tinygoCharIO ch)) chars conn
     in case enrichMACFromDIS device conn w of (_, conn, w) \<Rightarrow> (Inr conn, w))"

subsection \<open>Waiting\<close>

lemma wait_loop_decides: "WaitTimeout \<in> set evs \<Longrightarrow> wait_loop path evs \<noteq> None"
  by (induction path evs rule: wait_loop.induct) auto

lemma wait_loop_resolved:
  "wait_loop path evs = Some None \<Longrightarrow>
   \<exists>changed. WaitSignal (PropertiesChanged path bluezDeviceIface changed) \<in> set evs \<and>
     is_true (changed ''ServicesResolved'')"
  by (induction path evs rule: wait_loop.induct) (auto split: if_splits)

text \<open>However the waiting ends, its match rule and its channel are gone.\<close>

lemma wait_releases:
  assumes laws: "bus_laws bus rules chans" and wait: "waitServicesResolved bus path evs w = Some (r, w')"
  shows "rules w' = rules w \<and> chans w' = chans w"
  using wait bus_laws_snd [OF laws]
  by (auto simp: waitServicesResolved_def Let_def split: if_splits option.splits prod.splits
      dest!: bus_laws_calls [OF laws])

subsection \<open>The characteristics found\<close>

lemma object_char_iff:
  "object_char pre path ifs = Some u \<longleftrightarrow>
     starts_with path pre \<and>
     (\<exists>props s. ifs bluezGattCharIface = Some props \<and> props ''UUID'' = Some (VString s) \<and>
        parseUUIDString s = Inr u)"
proof -
  have "parseUUIDString (as_string (Some v)) = Inr u \<longleftrightarrow> (\<exists>s. v = VString s \<and> parseUUIDString s = Inr u)" for v
    by (cases v) (simp_all add: as_string_def parseUUIDString_def)
  moreover have "as_string (Some (VString s)) = s" for s by (simp add: as_string_def)
  ultimately show ?thesis by (auto simp: object_char_def split: option.splits sum.splits)
qed

text \<open>The map holds exactly the last object with each UUID.\<close>

lemma char_paths_sound:
  "char_paths pre objs m u = Some path \<Longrightarrow>
   m u = Some path \<or> (\<exists>ifs. (path, ifs) \<in> set objs \<and> object_char pre path ifs = Some u)"
proof (induction pre objs m rule: char_paths.induct)
  case (2 pre path' ifs objs m)
  from "2.IH" "2.prems" show ?case by (auto split: option.splits if_splits)
qed simp

lemma char_paths_keeps: "m u \<noteq> None \<Longrightarrow> char_paths pre objs m u \<noteq> None"
proof (induction pre objs m rule: char_paths.induct)
  case (2 pre path' ifs objs m)
  from "2.prems" show ?case unfolding char_paths.simps by (intro "2.IH") (auto split: option.splits)
qed simp

lemma char_paths_complete:
  "(path, ifs) \<in> set objs \<Longrightarrow> object_char pre path ifs = Some u \<Longrightarrow> char_paths pre objs m u \<noteq> None"
proof (induction objs arbitrary: m)
  case (Cons o' objs)
  show ?case
  proof (cases "o' = (path, ifs)")
    case True
    with Cons.prems(2) show ?thesis by (simp add: char_paths_keeps)
  next
    case False
    with Cons show ?thesis by (cases o') auto
  qed
qed simp

lemma fill_required_ok:
  assumes "fill_required mk m requireds conn w = (Inr conn', w')"
  shows "complete conn' \<and> conn_gwMAC conn' = conn_gwMAC conn \<and> w' = w \<and>
     conn_closer conn' = conn_closer conn \<and> conn_closed conn' = conn_closed conn \<and>
     charNotify conn' = map_option mk (m CharNotifyUUID) \<and>
     charCmd conn' = map_option mk (m CharCmdUUID) \<and> charPair conn' = map_option mk (m CharPairUUID)"
  using assms required_distinct
  by (auto simp: requireds_def set_char_def complete_def split: option.splits prod.splits)

lemma fill_required_missing:
  assumes "m u = None" "(u, name) \<in> set requireds" "conn_closer conn = FlagCloser d" "\<not> conn_closed conn"
  shows "\<exists>e. fill_required mk m requireds conn w = (Inl e, snd (d w))"
  using assms
  by (auto simp: requireds_def Connection_Close_def set_char_def split: option.splits prod.splits)

text \<open>A connection that is returned was filled from one answer of the object tree.\<close>

lemma linux_connect_ok:
  assumes "linux_connect bus sys adv (LinuxAddr path mac) evs w = Some (Inr conn, w')"
  shows "complete conn \<and> conn_gwMAC conn = AMAC adv \<and>
     (\<exists>objs v. fst (GetManagedObjects bus v) = Inr objs \<and>
        (\<forall>(u, name) \<in> set requireds. \<exists>p ifs. (p, ifs) \<in> set objs \<and> object_char (path @ ''/'') p ifs = Some u))"
proof -
  let ?conn = "\<lparr>charNotify = None, charCmd = None, charPair = None, conn_gwMAC = AMAC adv,
     conn_closer = FlagCloser (DeviceDisconnect bus path), conn_closed = False\<rparr>"
  let ?m = "\<lambda>objs. char_paths (path @ ''/'') objs Map.empty"
  from assms obtain objs v v' where objs: "getManagedObjects bus v = (Inr objs, v')"
    and fill: "fill_required (newLinuxCharIO bus sys) (?m objs) requireds ?conn v' = (Inr conn, w')"
    by (auto simp: linux_connect_def Let_def split: prod.splits option.splits sum.splits)
  note ok = fill_required_ok [OF fill]
  have "\<exists>p ifs. (p, ifs) \<in> set objs \<and> object_char (path @ ''/'') p ifs = Some u"
    if "u \<in> {CharNotifyUUID, CharCmdUUID, CharPairUUID}" for u
  proof -
    from ok that obtain p where "?m objs u = Some p" by (auto simp: complete_def)
    from char_paths_sound [OF this] show ?thesis by auto
  qed
  with ok objs [unfolded getManagedObjects_Inr] show ?thesis
    by (intro conjI exI [of _ objs] exI [of _ v]) (auto simp: requireds_def)
qed

subsection \<open>A device that connects\<close>

text \<open>
  A bus with one device that is resolved at once, has the three characteristics and answers a login; its state is
  the match rules and the number of signal channels.
\<close>

definition example_char :: "UUID \<Rightarrow> Interfaces" where
  "example_char u = Map.empty(bluezGattCharIface \<mapsto> Map.empty(''UUID'' \<mapsto> VString (UUID_String u)))"

definition example_bus :: "(string multiset \<times> nat) Bus" where
  "example_bus =
     \<lparr>WriteValue = (\<lambda>_ _ _ w. (None, w)), ReadValue = (\<lambda>_ w. (Inr (0x0D # replicate 16 7), w)),
      GetProperty = (\<lambda>_ _ _ w. (Inr (VBool True), w)), SetProperty = (\<lambda>_ _ _ _ w. (None, w)),
      GetManagedObjects = (\<lambda>w. (Inr [(''/d/1'', example_char CharNotifyUUID),
        (''/d/2'', example_char CharCmdUUID), (''/d/3'', example_char CharPairUUID)], w)),
      DeviceConnect = (\<lambda>_ w. (None, w)), DeviceDisconnect = (\<lambda>_ w. (None, w)),
      SetDiscoveryFilter = (\<lambda>_ _ _ w. (None, w)), StartDiscovery = (\<lambda>_ w. (None, w)),
      StopDiscovery = (\<lambda>_ w. (None, w)), AddMatch = (\<lambda>r (rs, n). (None, (add_mset r rs, n))),
      RemoveMatch = (\<lambda>r (rs, n). (None, (rs - {#r#}, n))), AddSignal = (\<lambda>(rs, n). (rs, Suc n)),
      RemoveSignal = (\<lambda>(rs, n). (rs, n - 1))\<rparr>"

lemma example_bus_calls [simp]:
  "GetProperty example_bus p i nm w = (Inr (VBool True), w)"
  "GetManagedObjects example_bus w = (Inr [(''/d/1'', example_char CharNotifyUUID),
     (''/d/2'', example_char CharCmdUUID), (''/d/3'', example_char CharPairUUID)], w)"
  "DeviceConnect example_bus p w = (None, w)" "WriteValue example_bus p d ty w = (None, w)"
  "ReadValue example_bus p w = (Inr (0x0D # replicate 16 7), w)"
  "SetDiscoveryFilter example_bus p ty us w = (None, w)" "StartDiscovery example_bus p w = (None, w)"
  "StopDiscovery example_bus p w = (None, w)" "AddMatch example_bus r w = (None, (add_mset r (fst w), snd w))"
  "RemoveMatch example_bus r w = (None, (fst w - {#r#}, snd w))"
  "AddSignal example_bus w = (fst w, Suc (snd w))" "RemoveSignal example_bus w = (fst w, snd w - 1)"
  by (simp_all add: example_bus_def split_beta)

lemma example_bus_laws: "bus_laws example_bus fst snd"
  by (auto simp: bus_laws_def example_bus_def split: prod.splits)

definition example_sys :: "(string multiset \<times> nat) Sys" where
  "example_sys =
     \<lparr>sys_Socket = (\<lambda>w. (Inr 3, w)), sys_SetFilter = (\<lambda>_ _ w. (None, w)),
      sys_Bind = (\<lambda>_ w. (None, w)), sys_Close = (\<lambda>_ w. w)\<rparr>"

definition example_adv :: Advertisement where
  "example_adv = the (ParseAdvertisement (replicate 15 7))"

lemma example_object:
  "length u = 16 \<Longrightarrow> starts_with path pre \<Longrightarrow> object_char pre path (example_char u) = Some u"
  by (simp add: object_char_iff example_char_def parseUUIDString_String)

lemma length_required [simp]:
  "length CharNotifyUUID = 16" "length CharCmdUUID = 16" "length CharPairUUID = 16"
  by (simp_all add: uuid_consts)

definition example_objects :: Objects where
  "example_objects = [(''/d/1'', example_char CharNotifyUUID), (''/d/2'', example_char CharCmdUUID),
     (''/d/3'', example_char CharPairUUID)]"

text \<open>Any bus connects to such a device if it answers.\<close>

lemma bus_connects:
  assumes bus: "DeviceConnect bus ''/d'' w = (None, w1)" "GetManagedObjects bus w1 = (Inr objs, w1)"
    "GetProperty bus ''/d'' bluezDeviceIface ''ServicesResolved'' w1 = (Inr (VBool True), w1)"
    and objs: "set example_objects \<subseteq> set objs"
  shows "\<exists>conn p. linux_connect bus sys adv (LinuxAddr ''/d'' mac) [] w = Some (Inr conn, w1) \<and>
     charPair conn = Some (newLinuxCharIO bus sys p) \<and> conn_gwMAC conn = AMAC adv"
proof -
  let ?m = "char_paths (''/d'' @ ''/'') objs Map.empty" and ?mk = "newLinuxCharIO bus sys"
  have at: "?m u \<noteq> None" if "(p, example_char u) \<in> set example_objects" "starts_with p ''/d/''" "length u = 16" for p u
  proof (rule char_paths_complete)
    show "(p, example_char u) \<in> set objs" using that(1) objs by blast
    show "object_char (''/d'' @ ''/'') p (example_char u) = Some u" using that(2,3) by (simp add: example_object)
  qed
  have found: "?m CharNotifyUUID \<noteq> None" "?m CharCmdUUID \<noteq> None" "?m CharPairUUID \<noteq> None"
    using at [of "''/d/1''"] at [of "''/d/2''"] at [of "''/d/3''"]
    by (simp_all add: example_objects_def starts_with_def)
  let ?c0 = "\<lparr>charNotify = None, charCmd = None, charPair = None, conn_gwMAC = AMAC adv,
    conn_closer = FlagCloser (DeviceDisconnect bus ''/d''), conn_closed = False\<rparr>"
  from found obtain conn where fill: "fill_required ?mk ?m requireds ?c0 w1 = (Inr conn, w1)"
    by (auto simp: requireds_def)
  then have c: "linux_connect bus sys adv (LinuxAddr ''/d'' mac) [] w = Some (Inr conn, w1)"
    by (simp add: linux_connect_def getManagedObjects_def waitServicesResolved_def is_true_def bus
        del: fill_required.simps char_paths.simps)
  from found(3) obtain p where p: "?m CharPairUUID = Some p" by blast
  from fill_required_ok [OF fill] have "conn_gwMAC conn = AMAC adv"
    "charPair conn = map_option ?mk (?m CharPairUUID)" by simp_all
  with p have "charPair conn = Some (?mk p)" "conn_gwMAC conn = AMAC adv"
    by (simp_all del: char_paths.simps)
  with c show ?thesis by blast
qed

lemma example_connects:
  "\<exists>conn p. linux_connect example_bus example_sys adv (LinuxAddr ''/d'' mac) [] w = Some (Inr conn, w) \<and>
     charPair conn = Some (newLinuxCharIO example_bus example_sys p) \<and> conn_gwMAC conn = AMAC adv"
  by (rule bus_connects [where objs = example_objects]) (simp_all add: example_objects_def)

end
