(* ===== verification/Delivery.thy ===== *)
theory Delivery
  imports Notify_Pump Ble_Hci
begin

section \<open>The path of a notification: HCI reader and pump together\<close>

text \<open>
  On Linux the channel that \<open>SubscribeNotify\<close> returns is the output channel of the HCI reader
  and the raw channel of the pump behind \<open>Client.Notifications\<close>, and both goroutines watch the
  same context. Here the two step relations run side by side: the reader's sends and its closing
  of the channel are arrivals and the closing at the pump, the pump's receives empty the
  reader's channel.
\<close>

datatype delivery_action = DReader hci_action | DPump pump_action | DContext

text \<open>What the reader's step did to its output channel, at the pump's end of it.\<close>

definition carry :: "hci \<Rightarrow> hci \<Rightarrow> pump \<Rightarrow> pump" where
  "carry h h' p = p\<lparr>p_raw := p_raw p @ drop (length (h_sent h)) (h_sent h'), p_rawClosed := h_outClosed h'\<rparr>"

inductive delivery_step :: "hci \<times> pump \<Rightarrow> delivery_action \<Rightarrow> hci \<times> pump \<Rightarrow> bool" where
  delivery_reader: "hci_step h a h' \<Longrightarrow> a \<noteq> HciContextDone \<Longrightarrow> a \<noteq> HciReceives \<Longrightarrow>
     delivery_step (h, p) (DReader a) (h', carry h h' p)"
| delivery_pump: "pump_step p a p' \<Longrightarrow> a \<in> {CallerReceives, PumpMoves, PumpClearsFlag} \<Longrightarrow>
     delivery_step (h, p) (DPump a) (h\<lparr>h_out := p_raw p'\<rparr>, p')"
| delivery_context: "delivery_step (h, p) DContext (h\<lparr>h_ctxDone := True\<rparr>, p\<lparr>p_ctxDone := True\<rparr>)"

definition delivery_start :: "hci \<times> pump \<Rightarrow> bool" where
  "delivery_start s \<longleftrightarrow> (\<exists>vh sk gw l. s = (hci_start vh, pump_start sk gw l))"

abbreviation delivery_reachable :: "hci \<times> pump \<Rightarrow> bool" where
  "delivery_reachable \<equiv> reachable delivery_start delivery_step"

text \<open>The channel loses nothing and invents nothing.\<close>

definition delivery_inv :: "hci \<times> pump \<Rightarrow> bool" where
  "delivery_inv s \<longleftrightarrow>
     (case s of (h, p) \<Rightarrow> hci_inv h \<and> pump_inv p \<and> h_out h = p_raw p \<and> h_outClosed h = p_rawClosed p \<and>
        h_sent h = p_taken p @ p_raw p)"

text \<open>A step of the reader adds at most one packet, and none to a closed channel.\<close>

lemma hci_step_out:
  assumes "hci_step h a h'" "a \<noteq> HciReceives" "hci_inv h"
  shows "(\<exists>new. h_sent h' = h_sent h @ new \<and> h_out h' = h_out h @ new \<and> length new \<le> 1 \<and>
            (h_outClosed h \<longrightarrow> new = [])) \<and> (h_outClosed h \<longrightarrow> h_outClosed h') \<and> h_handle h' = h_handle h"
  using assms
  by cases (auto simp: hci_forward_def hci_inv_def Let_def split: option.split)

lemma carry_inv:
  assumes "delivery_inv (h, p)" "hci_step h a h'" "a \<noteq> HciReceives"
  shows "delivery_inv (h', carry h h' p)"
proof -
  from assms(1) have h: "hci_inv h" and p: "pump_inv p" and
    io: "h_out h = p_raw p" "h_outClosed h = p_rawClosed p" "h_sent h = p_taken p @ p_raw p"
    by (simp_all add: delivery_inv_def)
  from hci_step_out [OF assms(2,3) h] obtain new where
    new: "h_sent h' = h_sent h @ new" "h_out h' = h_out h @ new" "length new \<le> 1" "h_outClosed h \<longrightarrow> new = []"
    and closed: "h_outClosed h \<longrightarrow> h_outClosed h'" by blast
  have "hci_inv h'" by (rule hci.inv_step [OF h assms(2)])
  moreover have "pump_delivers (carry h h' p)" "pump_queue (carry h h' p)"
    using p new(1,4) closed io(2)
    by (auto simp: pump_inv_def pump_delivers_def pump_queue_def pump_spec_def carry_def split: pump_pc.splits)
  ultimately show ?thesis
    using io new by (simp add: delivery_inv_def pump_inv_def carry_def)
qed

text \<open>A step of the pump takes the head of the channel or leaves it.\<close>

lemma pump_step_raw:
  assumes "pump_step p a p'" "a \<in> {CallerReceives, PumpMoves, PumpClearsFlag}"
  shows "p_rawClosed p' = p_rawClosed p \<and> p_taken p' @ p_raw p' = p_taken p @ p_raw p \<and> suffix (p_raw p') (p_raw p)"
  using assms by cases (auto simp: suffix_def)

lemma take_inv:
  assumes "delivery_inv (h, p)" "pump_step p a p'" "a \<in> {CallerReceives, PumpMoves, PumpClearsFlag}"
  shows "delivery_inv (h\<lparr>h_out := p_raw p'\<rparr>, p')"
proof -
  from assms(1) have inv: "hci_inv h" "pump_inv p" and
    io: "h_out h = p_raw p" "h_outClosed h = p_rawClosed p" "h_sent h = p_taken p @ p_raw p"
    by (simp_all add: delivery_inv_def)
  note raw = pump_step_raw [OF assms(2,3)]
  from raw io(1) have "suffix (p_raw p') (h_out h)" by simp
  with inv(1) have "hci_inv (h\<lparr>h_out := p_raw p'\<rparr>)"
    by (auto simp: hci_inv_def dest: suffix_length_le intro: suffix_order.trans)
  moreover have "pump_inv p'" by (rule pump.inv_step [OF inv(2) assms(2)])
  ultimately show ?thesis using raw io by (simp add: delivery_inv_def)
qed

interpretation delivery: step_invariant delivery_start delivery_step delivery_inv
proof unfold_locales
  fix s assume "delivery_start s"
  then show "delivery_inv s"
    using hci.inv_start pump.inv_start
    by (fastforce simp: delivery_start_def delivery_inv_def hci_start_def pump_start_def)
next
  fix s a s' assume inv: "delivery_inv s" and "delivery_step s a s'"
  from this(2) show "delivery_inv s'"
  proof cases
    case (delivery_reader h a' h' p)
    with carry_inv [of h p a' h'] inv show ?thesis by simp
  next
    case (delivery_pump p a' p' h)
    with take_inv [of h p a' p'] inv show ?thesis by simp
  next
    case (delivery_context h p)
    have "pump_inv (p\<lparr>p_ctxDone := True\<rparr>)" "hci_inv (h\<lparr>h_ctxDone := True\<rparr>)"
      using inv delivery_context pump.inv_step [OF _ context_done] hci.inv_step [OF _ hci_context]
      by (auto simp: delivery_inv_def)
    with inv delivery_context show ?thesis by (simp add: delivery_inv_def)
  qed
qed

subsection \<open>Each side alone\<close>

text \<open>
  Seen from the pump, a run of the pair is a run of the pump: the reader is its environment, and
  the other way round. So whatever holds of a reachable pump, or of a reachable reader, holds here.
\<close>

lemmas pump_one = steps_one [where step = pump_step]
lemmas hci_one = steps_one [where step = hci_step]

lemma rawClosed_same: "p_rawClosed p = b \<Longrightarrow> p\<lparr>p_raw := x, p_rawClosed := b\<rparr> = p\<lparr>p_raw := x\<rparr>"
  by (cases p) simp

lemma reader_pump_steps:
  assumes "delivery_inv (h, p)" "hci_step h a h'" "a \<noteq> HciReceives"
  shows "\<exists>bs. steps pump_step p bs (carry h h' p)"
proof -
  from assms(1) have h: "hci_inv h" and closed: "h_outClosed h = p_rawClosed p" by (simp_all add: delivery_inv_def)
  from assms(2,3) have "carry h h' p = p \<or>
      \<not> p_rawClosed p \<and> ((\<exists>pkt. carry h h' p = p\<lparr>p_raw := p_raw p @ [pkt]\<rparr>) \<or> carry h h' p = p\<lparr>p_rawClosed := True\<rparr>)"
    using h closed
    by cases (auto simp: carry_def hci_forward_def hci_inv_def rawClosed_same Let_def split: option.split)
  then show ?thesis
    by (elim disjE conjE exE)
      (simp_all add: steps_none pump_one [OF raw_arrives] pump_one [OF raw_closes])
qed

lemma pump_reader_steps:
  assumes "delivery_inv (h, p)" "pump_step p a p'" "a \<in> {CallerReceives, PumpMoves, PumpClearsFlag}"
  shows "\<exists>bs. steps hci_step h bs (h\<lparr>h_out := p_raw p'\<rparr>)"
proof -
  from assms(1) have out: "h_out h = p_raw p" by (simp add: delivery_inv_def)
  from assms(2,3) have "p_raw p' = p_raw p \<or> (\<exists>pkt. p_raw p = pkt # p_raw p')" by cases auto
  then show ?thesis
  proof
    assume "p_raw p' = p_raw p"
    then have "h\<lparr>h_out := p_raw p'\<rparr> = h" by (simp add: out [symmetric])
    then show ?thesis by (simp add: steps_none)
  next
    assume "\<exists>pkt. p_raw p = pkt # p_raw p'"
    then obtain pkt where "h_out h = pkt # p_raw p'" by (auto simp: out)
    from hci_one [OF hci_receives [OF this]] show ?thesis .
  qed
qed

lemma delivery_parts_steps:
  assumes "delivery_reachable s" "delivery_step s a s'"
  shows "(\<exists>bs. steps pump_step (snd s) bs (snd s')) \<and> (\<exists>bs. steps hci_step (fst s) bs (fst s'))"
  using assms(2)
proof cases
  case (delivery_reader h a' h' p)
  with reader_pump_steps [of h p a' h'] delivery.reachable_inv [OF assms(1)] show ?thesis
    by (simp add: hci_one [OF delivery_reader(4)])
next
  case (delivery_pump p a' p' h)
  with pump_reader_steps [of h p a' p'] delivery.reachable_inv [OF assms(1)] show ?thesis
    by (simp add: pump_one [OF delivery_pump(4)])
next
  case (delivery_context h p)
  then show ?thesis by (simp add: pump_one [OF context_done] hci_one [OF hci_context])
qed

interpretation delivery_as_pump: step_simulation delivery_start delivery_step
  "\<lambda>p. \<exists>sk gw l. p = pump_start sk gw l" pump_step "\<lambda>s p. p = snd s"
  by unfold_locales (simp_all add: delivery_parts_steps, unfold delivery_start_def, force)

interpretation delivery_as_reader: step_simulation delivery_start delivery_step
  "\<lambda>h. \<exists>vh. h = hci_start vh" hci_step "\<lambda>s h. h = fst s"
  by unfold_locales (simp_all add: delivery_parts_steps, unfold delivery_start_def, force)

lemma delivery_parts:
  assumes "delivery_reachable (h, p)"
  shows "hci_reachable h" "pump_reachable p"
  using delivery_as_reader.simulated [OF assms] delivery_as_pump.simulated [OF assms] by auto

subsection \<open>Both goroutines end\<close>

text \<open>The two goroutines share their context, and end when it is done.\<close>

interpretation delivery_context: step_invariant delivery_start delivery_step
  "\<lambda>s. h_ctxDone (fst s) = p_ctxDone (snd s)"
proof unfold_locales
  fix s a s' assume inv: "h_ctxDone (fst s) = p_ctxDone (snd s)" and "delivery_step s a s'"
  from this(2) show "h_ctxDone (fst s') = p_ctxDone (snd s')"
  proof cases
    case (delivery_reader h a' h' p)
    from delivery_reader(4,5) have "h_ctxDone h' = h_ctxDone h"
      by cases (auto simp: hci_forward_def Let_def split: option.split)
    with inv delivery_reader show ?thesis by (simp add: carry_def)
  next
    case (delivery_pump p a' p' h)
    from delivery_pump(4,5) have "p_ctxDone p' = p_ctxDone p" by cases auto
    with inv delivery_pump show ?thesis by simp
  qed simp
qed (auto simp: delivery_start_def hci_start_def pump_start_def)

definition delivery_own :: "hci \<times> pump \<Rightarrow> delivery_action \<Rightarrow> hci \<times> pump \<Rightarrow> bool" where
  "delivery_own s a s' \<longleftrightarrow> h_ctxDone (fst s) \<and> a \<noteq> DContext \<and> a \<noteq> DPump CallerReceives \<and> delivery_step s a s'"

definition delivery_rank :: "hci \<times> pump \<Rightarrow> nat" where
  "delivery_rank s = hci_rank (h_pc (fst s)) + pump_rank (snd s)"

definition delivery_live :: "hci \<times> pump \<Rightarrow> bool" where
  "delivery_live s \<longleftrightarrow> delivery_inv s \<and> h_ctxDone (fst s) \<and> pump_live (snd s)"

definition delivery_final :: "hci \<times> pump \<Rightarrow> bool" where
  "delivery_final s \<longleftrightarrow> h_pc (fst s) = HciDone \<and> p_pc (snd s) = PumpDone"

text \<open>A step of either goroutine is one of its own steps.\<close>

lemma delivery_own_cases:
  assumes "delivery_own s a s'"
  obtains (reader) h b h' p where "s = (h, p)" "a = DReader b" "s' = (h', carry h h' p)" "hci_own h b h'"
  | (pump) h b p p' where "s = (h, p)" "a = DPump b" "s' = (h\<lparr>h_out := p_raw p'\<rparr>, p')" "pump_own p b p'"
    "h_ctxDone h"
proof -
  from assms have "delivery_step s a s'" and own: "h_ctxDone (fst s)" "a \<noteq> DContext" "a \<noteq> DPump CallerReceives"
    by (simp_all add: delivery_own_def)
  from this(1) show thesis
  proof cases
    case (delivery_reader h b h' p)
    with own show thesis by (intro reader [of h p b h']) (auto simp: hci_own_def)
  next
    case (delivery_pump p b p' h)
    with own show thesis by (intro pump [of h p b p']) (auto simp: pump_own_def)
  next
    case (delivery_context h p)
    with own show thesis by simp
  qed
qed

lemma delivery_own_live:
  assumes "delivery_live s" "delivery_own s a s'"
  shows "delivery_live s'"
proof -
  have "delivery_inv s'"
    using assms delivery.inv_step [of s a s'] by (simp add: delivery_live_def delivery_own_def)
  with assms(2) show ?thesis
  proof (cases rule: delivery_own_cases)
    case (reader h b h' p)
    with hci_own_rank [of h b h'] assms(1) \<open>delivery_inv s'\<close> show ?thesis
      by (auto simp: delivery_live_def delivery_inv_def pump_live_def carry_def)
  next
    case (pump h b p p')
    with assms(1) \<open>delivery_inv s'\<close> show ?thesis by (auto simp: delivery_live_def intro: pump_end.live_step)
  qed
qed

interpretation delivery_end: step_terminates delivery_own delivery_rank delivery_live delivery_final
proof unfold_locales
  fix s a s' assume "delivery_own s a s'"
  then show "delivery_rank s' < delivery_rank s"
  proof (cases rule: delivery_own_cases)
    case (reader h b h' p)
    with hci_own_rank [of h b h'] show ?thesis by (simp add: delivery_rank_def pump_rank_def carry_def)
  next
    case (pump h b p p')
    with pump_own.rank_step [of p b p'] show ?thesis by (simp add: delivery_rank_def)
  qed
next
  fix s assume live: "delivery_live s" and "\<not> delivery_final s"
  obtain h p where s: "s = (h, p)" by (cases s)
  show "\<exists>a s'. delivery_own s a s'"
  proof (cases "h_pc h = HciDone")
    case False
    with live s obtain h' where "hci_own h HciMoves h'" using hci_progress by (auto simp: delivery_live_def)
    then have "delivery_own s (DReader HciMoves) (h', carry h h' p)"
      by (auto simp: s hci_own_def delivery_own_def intro: delivery_reader)
    then show ?thesis by blast
  next
    case True
    with \<open>\<not> delivery_final s\<close> s have "p_pc p \<noteq> PumpDone" by (simp add: delivery_final_def)
    with live s obtain b p' where b: "pump_own p b p'" using pump_end.progress [of p] by (auto simp: delivery_live_def)
    then have "delivery_own s (DPump b) (h\<lparr>h_out := p_raw p'\<rparr>, p')"
      using live by (auto simp: s pump_own_def delivery_own_def delivery_live_def intro: delivery_pump)
    then show ?thesis by blast
  qed
qed (rule delivery_own_live)

subsection \<open>From the frames to the caller\<close>

lemma subseq_decrypted: "subseq xs ys \<Longrightarrow> subseq (decrypted sk gw xs) (decrypted sk gw ys)"
  by (induction rule: list_emb.induct) (auto split: sum.split)

text \<open>A notification as a node sends it, and as the controller of the host frames it.\<close>

definition node_packet :: "byte list \<Rightarrow> MACAddress \<Rightarrow> byte list \<Rightarrow> Notification \<Rightarrow> byte list" where
  "node_packet sk gw sno n =
     (let pt = NOpcode n # lo8 (NVendor n) # hi8 (NVendor n) # Payload n;
          nonce = NotificationNonce gw sno (Source n)
      in notification_wire sno (Source n) (cbcMAC sk nonce pt) (ctrCrypt sk nonce pt))"

lemma decrypt_node_packet:
  assumes "length sno = 3" "length (Payload n) = 10"
  shows "DecryptNotification sk gw (node_packet sk gw sno n) = Inr n"
proof -
  let ?pt = "NOpcode n # lo8 (NVendor n) # hi8 (NVendor n) # Payload n"
  let ?n = "NotificationNonce gw sno (Source n)"
  have "Decrypt sk ?n (cbcMAC sk ?n ?pt) (ctrCrypt sk ?n ?pt) = Inr ?pt"
    by (simp add: Decrypt_Encrypt_parts)
  with assms show ?thesis by (simp add: node_packet_def DecryptNotification_wire Let_def)
qed

lemma length_node_packet [simp]:
  "length sno = 3 \<Longrightarrow> length (Payload n) = 10 \<Longrightarrow> length (node_packet sk gw sno n) = 20"
  by (simp add: node_packet_def Let_def)

definition node_frame :: "u16 \<Rightarrow> byte list \<Rightarrow> MACAddress \<Rightarrow> byte list \<times> byte list \<times> Notification \<Rightarrow> byte list" where
  "node_frame vh sk gw m = (case m of (hdr, sno, n) \<Rightarrow> acl_notification hdr vh (node_packet sk gw sno n))"

definition node_message :: "byte list \<times> byte list \<times> Notification \<Rightarrow> bool" where
  "node_message m \<longleftrightarrow> (case m of (hdr, sno, n) \<Rightarrow> length hdr = 6 \<and> length sno = 3 \<and> length (Payload n) = 10)"

lemma hci_packet_node_frame:
  assumes "length hdr = 6"
  shows "hci_packet vh (acl_notification hdr vh body) (length (acl_notification hdr vh body)) = Some body"
proof -
  let ?f = "acl_notification hdr vh body"
  have "go_copy ?f ?f = ?f" by (simp add: go_copy_full)
  with hci_packet_fresh [of ?f ?f vh body] assms show ?thesis by auto
qed

lemma decrypted_node_frames:
  assumes "list_all node_message ms"
  shows "decrypted sk gw (notification_bodies vh (map (node_frame vh sk gw) ms)) = map (snd \<circ> snd) ms"
  using assms
  by (induction ms)
    (auto simp: node_message_def node_frame_def hci_packet_node_frame decrypt_node_packet)

text \<open>What the caller has or can still take, against the frames the socket saw.\<close>

lemma delivered_frames:
  assumes "delivery_inv (h, p)"
  shows "subseq (p_received p @ p_out p)
     (decrypted (p_key p) (p_mac p) (notification_bodies (h_handle h) (h_frames h)))"
    and "h_dropped h = 0 \<Longrightarrow> p_pc p = PumpDone \<Longrightarrow> \<not> p_ctxDone p \<Longrightarrow> p_received p @ p_out p =
      decrypted (p_key p) (p_mac p) (notification_bodies (h_handle h) (h_frames h))"
proof -
  let ?d = "decrypted (p_key p) (p_mac p)" and ?b = "notification_bodies (h_handle h) (h_frames h)"
  from assms have "hci_inv h" "pump_inv p" and io: "h_sent h = p_taken p @ p_raw p"
    by (simp_all add: delivery_inv_def)
  then have h: "subseq (h_sent h) ?b" "length ?b = length (h_sent h) + h_dropped h"
    and p: "pump_delivers p" "p_sent p = p_received p @ p_out p"
    by (simp_all add: hci_inv_def pump_inv_def pump_queue_def)
  from p(1) have "\<exists>rest. ?d (p_taken p) = p_sent p @ rest"
    by (auto simp: pump_delivers_def pump_spec_def split: pump_pc.splits)
  then have "subseq (p_sent p) (?d (h_sent h))" by (auto simp: io decrypted_append)
  with subseq_decrypted [OF h(1)] show "subseq (p_received p @ p_out p) (?d ?b)"
    unfolding p(2) by (rule subseq_order.trans [rotated])
  assume "h_dropped h = 0" "p_pc p = PumpDone" "\<not> p_ctxDone p"
  with p(1) have "?d (p_taken p) = p_sent p" "p_raw p = []"
    by (auto simp: pump_delivers_def pump_spec_def)
  moreover from h \<open>h_dropped h = 0\<close> have "h_sent h = ?b" by (auto intro: subseq_same_length)
  ultimately show "p_received p @ p_out p = ?d ?b" using io p(2) by simp
qed

subsection \<open>One notification\<close>

text \<open>
  A run in which a notification is read, delivered, and both goroutines end by themselves: the
  reader's part of it, then the pump's.
\<close>

definition read_state :: "u16 \<Rightarrow> byte list \<Rightarrow> byte list \<Rightarrow> hci" where
  "read_state vh f pkt = (hci_start vh)\<lparr>h_buf := go_copy (replicate 1024 0) f, h_frames := [f],
     h_out := [pkt], h_sent := [pkt]\<rparr>"

lemma reader_example:
  assumes "length f \<le> 1024" "hci_packet vh f (length f) = Some pkt"
  shows "delivery_reachable ((read_state vh f pkt)\<lparr>h_pc := HciDone, h_outClosed := True\<rparr>,
     (pump_start sk gw l)\<lparr>p_raw := [pkt], p_rawClosed := True\<rparr>)"
proof -
  let ?h1 = "(hci_start vh)\<lparr>h_pc := HciRead\<rparr>" and ?h2 = "read_state vh f pkt"
  let ?p = "pump_start sk gw l"
  have "delivery_reachable (hci_start vh, ?p)" by (rule reach_start) (auto simp: delivery_start_def)
  moreover have "hci_step (hci_start vh) HciMoves ?h1" by (rule hci_ready) (simp_all add: hci_start_def)
  then have "delivery_step (hci_start vh, ?p) (DReader HciMoves) (?h1, ?p)"
    using delivery_reader [of "hci_start vh" HciMoves ?h1 ?p]
    by (simp add: carry_def hci_start_def pump_start_def)
  ultimately have "delivery_reachable (?h1, ?p)" by (rule reach_step)
  moreover have "hci_packet vh (go_copy (replicate 1024 0) f) (length f) = Some pkt"
    using assms hci_packet_buffer [of f "replicate 1024 0" vh] by simp
  then have "hci_forward ?h1 f = ?h2" by (simp add: hci_forward_def read_state_def hci_start_def Let_def)
  then have "hci_step ?h1 (HciReads f) ?h2" using hci_reads [of ?h1 f] assms by (simp add: hci_start_def)
  then have "delivery_step (?h1, ?p) (DReader (HciReads f)) (?h2, ?p\<lparr>p_raw := [pkt]\<rparr>)"
    using delivery_reader [of ?h1 "HciReads f" ?h2 ?p]
    by (simp add: carry_def read_state_def hci_start_def pump_start_def)
  ultimately have "delivery_reachable (?h2, ?p\<lparr>p_raw := [pkt]\<rparr>)" by (rule reach_step)
  moreover have "hci_step ?h2 HciMoves (?h2\<lparr>h_pc := HciDone, h_outClosed := True\<rparr>)"
    by (rule hci_fails) (simp add: read_state_def hci_start_def)
  from delivery_reader [OF this, of "?p\<lparr>p_raw := [pkt]\<rparr>"]
  have "delivery_step (?h2, ?p\<lparr>p_raw := [pkt]\<rparr>) (DReader HciMoves)
      (?h2\<lparr>h_pc := HciDone, h_outClosed := True\<rparr>, ?p\<lparr>p_raw := [pkt], p_rawClosed := True\<rparr>)"
    by (simp add: carry_def)
  ultimately show ?thesis by (rule reach_step)
qed

lemma pump_moves:
  assumes "delivery_reachable (h, p)" "pump_step p a p'" "a \<in> {CallerReceives, PumpMoves, PumpClearsFlag}"
    and "p_raw p' = h_out h"
  shows "delivery_reachable (h, p')"
  using reach_step [OF assms(1) delivery_pump [OF assms(2,3)]] assms(4) by simp

lemma pump_example:
  assumes "delivery_reachable (h, (pump_start sk gw l)\<lparr>p_raw := [pkt], p_rawClosed := True\<rparr>)"
    and dec: "DecryptNotification sk gw pkt = Inr n"
  shows "\<exists>p. delivery_reachable (h\<lparr>h_out := []\<rparr>, p) \<and> p_key p = sk \<and> p_mac p = gw \<and> p_pc p = PumpDone \<and>
     \<not> p_ctxDone p"
proof -
  define p3 where "p3 = (pump_start sk gw l)\<lparr>p_raw := [pkt], p_rawClosed := True\<rparr>"
  define p4 where "p4 = p3\<lparr>p_raw := [], p_taken := [pkt], p_pc := PumpOffer n\<rparr>"
  define p5 where "p5 = p4\<lparr>p_out := [n], p_sent := [n], p_pc := PumpSelect\<rparr>"
  define p6 where "p6 = p5\<lparr>p_pc := PumpUnflag\<rparr>"
  define p7 where "p7 = p6\<lparr>p_pc := PumpClose\<rparr>"
  define p8 where "p8 = p7\<lparr>p_outClosed := True, p_pc := PumpDone\<rparr>"
  note defs = p3_def p4_def p5_def p6_def p7_def p8_def pump_start_def
  have "pump_step p3 PumpMoves p4"
    using select_packet [of p3 pkt "[]"] dec by (simp add: pump_packet_def defs)
  from reach_step [OF assms(1) [folded p3_def] delivery_pump [OF this]]
  have "delivery_reachable (h\<lparr>h_out := []\<rparr>, p4)" by (simp add: p4_def)
  then have "delivery_reachable (h\<lparr>h_out := []\<rparr>, p5)"
    by (rule pump_moves [where a = PumpMoves]) (use offer_sent [of p4 n] in \<open>simp_all add: defs out_capacity_def\<close>)
  then have "delivery_reachable (h\<lparr>h_out := []\<rparr>, p6)"
    by (rule pump_moves [where a = PumpMoves]) (use select_closed [of p5] in \<open>simp_all add: defs\<close>)
  then have "delivery_reachable (h\<lparr>h_out := []\<rparr>, p7)"
    by (rule pump_moves [where a = PumpClearsFlag]) (use clears_flag [of p6] in \<open>simp_all add: defs\<close>)
  then have "delivery_reachable (h\<lparr>h_out := []\<rparr>, p8)"
    by (rule pump_moves [where a = PumpMoves]) (use closes_out [of p7] in \<open>simp_all add: defs\<close>)
  then show ?thesis by (intro exI [of _ p8] conjI) (assumption, simp_all add: defs)
qed

lemma delivery_example:
  assumes "node_message m"
  shows "\<exists>h p. delivery_reachable (h, p) \<and> h_handle h = vh \<and> p_key p = sk \<and> p_mac p = gw \<and>
     h_frames h = [node_frame vh sk gw m] \<and> h_dropped h = 0 \<and> p_pc p = PumpDone \<and> \<not> p_ctxDone p"
proof -
  obtain hdr sno n where m: "m = (hdr, sno, n)" by (cases m)
  with assms have len: "length hdr = 6" "length sno = 3" "length (Payload n) = 10"
    by (simp_all add: node_message_def)
  let ?pkt = "node_packet sk gw sno n" and ?f = "node_frame vh sk gw m"
  have "length ?f \<le> 1024" "hci_packet vh ?f (length ?f) = Some ?pkt"
    using len by (simp_all add: node_frame_def m hci_packet_node_frame) (simp add: acl_notification_def)
  from pump_example [OF reader_example [OF this, of sk gw "Some 0"] decrypt_node_packet [OF len(2,3)]]
  show ?thesis by (elim exE conjE, intro exI conjI) (assumption, simp_all add: read_state_def hci_start_def)
qed

end
