(* ===== verification/Links.thy ===== *)
theory Links
  imports Ble_Connect
begin

section \<open>What the calls leave alone: links and sockets\<close>

text \<open>
  A measure of the state below (the devices connected, the open descriptors) that a call does not
  change is left alone by everything built from such calls: a characteristic, the transport, and the
  operations of the client. With the documented behaviour of \<open>Connect\<close> and \<open>Disconnect\<close> this says
  which links an operation sets up and which it gives back.
\<close>

definition leaves :: "('w \<Rightarrow> 'm) \<Rightarrow> ('w \<Rightarrow> 'b \<times> 'w) \<Rightarrow> bool" where
  "leaves m f \<longleftrightarrow> (\<forall>w. m (snd (f w)) = m w)"

lemma leavesI: "(\<And>w r w'. f w = (r, w') \<Longrightarrow> m w' = m w) \<Longrightarrow> leaves m f"
  by (simp add: leaves_def split_beta prod_eq_iff)

lemma leavesD: "leaves m f \<Longrightarrow> f w = (r, w') \<Longrightarrow> m w' = m w"
  by (metis leaves_def snd_conv)

definition charIO_leaves :: "('w \<Rightarrow> 'm) \<Rightarrow> 'w charIO \<Rightarrow> bool" where
  "charIO_leaves m io \<longleftrightarrow>
     (\<forall>d. leaves m (writeRequest io d)) \<and> (\<forall>d. leaves m (writeCommand io d)) \<and>
     leaves m (read_value io) \<and> leaves m (subscribe io)"

definition transport_leaves :: "('w \<Rightarrow> 'm) \<Rightarrow> 'w Transport \<Rightarrow> bool" where
  "transport_leaves m t \<longleftrightarrow>
     (\<forall>d. leaves m (WritePair t d)) \<and> leaves m (ReadPair t) \<and> (\<forall>d. leaves m (WriteCommand t d)) \<and>
     leaves m (SubscribeNotify t)"

lemma leaves_wrap_error: "leaves m f \<Longrightarrow> leaves m (\<lambda>w. wrap_error msg (f w))"
  by (auto simp: wrap_error_def intro!: leavesI dest: leavesD split: prod.splits option.splits)

lemma leaves_SubscribeNotify:
  assumes "charIO_leaves m io" "charNotify conn = Some io"
  shows "leaves m (\<lambda>w. the (Transport_SubscribeNotify conn w))"
proof (rule leavesI)
  fix w r w' assume "the (Transport_SubscribeNotify conn w) = (r, w')"
  with assms show "m w' = m w"
    by (auto simp: Transport_SubscribeNotify_def wrap_error_def charIO_leaves_def
        split: prod.splits option.splits dest!: leavesD [of m])
qed

lemma NewTransport_leaves:
  assumes "complete conn" "\<And>io. Some io \<in> {charNotify conn, charCmd conn, charPair conn} \<Longrightarrow> charIO_leaves m io"
  shows "transport_leaves m (NewTransport conn)"
proof -
  from assms(1) obtain n c p where io: "charNotify conn = Some n" "charCmd conn = Some c" "charPair conn = Some p"
    by (auto simp: complete_def)
  with assms(2) have "charIO_leaves m n" "charIO_leaves m c" "charIO_leaves m p" by simp_all
  with io leaves_SubscribeNotify [of m n conn] show ?thesis
    by (auto simp: transport_leaves_def charIO_leaves_def NewTransport_def Transport_WritePair_def
        Transport_WriteCommand_def Transport_ReadPair_def leaves_wrap_error
        intro!: leavesI dest: leavesD split: prod.splits sum.splits)
qed

text \<open>The operations of the client do to the state what their transport does.\<close>

lemma Login_leaves:
  assumes "transport_leaves m t" "Login t rndA rndSalt name pass c w = (e, c', w')"
  shows "m w' = m w"
  using assms
  by (auto simp: transport_leaves_def Login_def Let_def split: login_splits dest!: leavesD [of m])

lemma Send_leaves:
  assumes "transport_leaves m t" "Send t cmd c w = Some (e, c', w')"
  shows "m w' = m w"
  using assms
  by (auto simp: transport_leaves_def Send_def Let_def split: login_splits dest: leavesD [of m])

lemma Notifications_leaves:
  assumes "transport_leaves m t" "Notifications t c w = (e, c', w')"
  shows "m w' = m w"
  using assms
  by (auto simp: transport_leaves_def Notifications_def Let_def split: login_splits dest: leavesD [of m])

subsection \<open>Links on the bus\<close>

text \<open>
  The documented behaviour: \<open>links w\<close> is the set of devices connected; \<open>Connect\<close> that succeeds adds
  its device, \<open>Disconnect\<close> that succeeds removes it, and no other call of the code changes it.
\<close>

definition link_laws :: "'w Bus \<Rightarrow> 'w Sys \<Rightarrow> ('w \<Rightarrow> ObjectPath set) \<Rightarrow> bool" where
  "link_laws bus sys links \<longleftrightarrow>
     (\<forall>p w. links (snd (DeviceConnect bus p w)) =
        (if fst (DeviceConnect bus p w) = None then insert p (links w) else links w)) \<and>
     (\<forall>p w. links (snd (DeviceDisconnect bus p w)) =
        (if fst (DeviceDisconnect bus p w) = None then links w - {p} else links w)) \<and>
     (\<forall>p d ty. leaves links (WriteValue bus p d ty)) \<and> (\<forall>p. leaves links (ReadValue bus p)) \<and>
     (\<forall>p i n. leaves links (GetProperty bus p i n)) \<and> (\<forall>p i n v. leaves links (SetProperty bus p i n v)) \<and>
     leaves links (GetManagedObjects bus) \<and>
     (\<forall>p ty us. leaves links (SetDiscoveryFilter bus p ty us)) \<and>
     (\<forall>p. leaves links (StartDiscovery bus p)) \<and> (\<forall>p. leaves links (StopDiscovery bus p)) \<and>
     (\<forall>r. leaves links (AddMatch bus r)) \<and> (\<forall>r. leaves links (RemoveMatch bus r)) \<and>
     (\<forall>w. links (AddSignal bus w) = links w) \<and> (\<forall>w. links (RemoveSignal bus w) = links w) \<and>
     leaves links (sys_Socket sys) \<and> (\<forall>fd b. leaves links (sys_SetFilter sys fd b)) \<and>
     (\<forall>fd. leaves links (sys_Bind sys fd)) \<and> (\<forall>fd w. links (sys_Close sys fd w) = links w)"

lemma link_laws_Connect:
  assumes "link_laws bus sys links" "DeviceConnect bus p w = (e, w')"
  shows "links w' = (if e = None then insert p (links w) else links w)"
proof -
  have "links (snd (DeviceConnect bus p w)) =
      (if fst (DeviceConnect bus p w) = None then insert p (links w) else links w)"
    using assms(1) by (simp add: link_laws_def)
  with assms(2) show ?thesis by simp
qed

lemma link_laws_Disconnect:
  assumes "link_laws bus sys links"
  shows "links (snd (DeviceDisconnect bus p w)) =
     (if fst (DeviceDisconnect bus p w) = None then links w - {p} else links w)"
  using assms by (simp add: link_laws_def)

lemma link_laws_leaves:
  assumes "link_laws bus sys links"
  shows "leaves links (WriteValue bus p d ty)" "leaves links (ReadValue bus p)" "leaves links (GetProperty bus p i n)"
    "leaves links (SetProperty bus p i n v)" "leaves links (GetManagedObjects bus)"
    "leaves links (SetDiscoveryFilter bus p ty us)" "leaves links (StartDiscovery bus p)"
    "leaves links (StopDiscovery bus p)" "leaves links (AddMatch bus r)" "leaves links (RemoveMatch bus r)"
    "leaves links (sys_Socket sys)" "leaves links (sys_SetFilter sys fd b)" "leaves links (sys_Bind sys fd)"
  using assms by (simp_all add: link_laws_def)

lemma link_laws_states:
  assumes "link_laws bus sys links"
  shows "links (AddSignal bus w) = links w" "links (RemoveSignal bus w) = links w" "links (sys_Close sys fd w) = links w"
  using assms by (simp_all add: link_laws_def)

lemmas link_calls = link_laws_leaves [THEN leavesD]

lemma linux_write_leaves:
  assumes "link_laws bus sys links"
  shows "leaves links (linux_writeValue bus path d ty)"
proof -
  have "linux_writeValue bus path d ty = (\<lambda>w. wrap_error ''ble: WriteValue %s: %w'' (WriteValue bus path d ty w))"
    by (simp add: linux_writeValue_def fun_eq_iff)
  then show ?thesis using leaves_wrap_error [OF link_laws_leaves(1) [OF assms]] by simp
qed

lemma linux_subscribe_leaves:
  assumes laws: "link_laws bus sys links" and "linux_subscribe_start bus sys path w = (r, w')"
  shows "links w' = links w"
proof -
  obtain r1 w1 where h: "readHandle bus path w = (r1, w1)" by fastforce
  then have "links w1 = links w"
    by (auto simp: readHandle_def split: prod.splits sum.splits Variant.splits dest: link_calls(3) [OF laws])
  moreover have "openHCIRaw sys v = (r, v') \<Longrightarrow> links v' = links v" for v r v'
    by (auto simp: openHCIRaw_def link_laws_states [OF laws] split: prod.splits sum.splits option.splits
        dest!: link_calls(11-13) [OF laws])
  ultimately show ?thesis using assms(2) h
    by (auto simp: linux_subscribe_start_def Let_def split: prod.splits sum.splits)
qed

lemma linux_char_leaves:
  assumes laws: "link_laws bus sys links"
  shows "charIO_leaves links (newLinuxCharIO bus sys path)"
proof -
  have w: "leaves links (linux_writeValue bus path d ty)" for d ty by (rule linux_write_leaves [OF laws])
  have "leaves links (linux_read bus path)"
    by (rule leavesI) (auto simp: linux_read_def split: prod.splits sum.splits dest: link_calls(2) [OF laws])
  moreover have "leaves links (subscribe (newLinuxCharIO bus sys path))"
    by (rule leavesI)
      (auto simp: newLinuxCharIO_def split: prod.splits sum.splits dest: linux_subscribe_leaves [OF laws])
  moreover have "linux_writeRequest bus path d = linux_writeValue bus path d ''request''"
    "linux_writeCommand bus path d = linux_writeValue bus path d ''command''" for d
    by (simp_all add: linux_writeRequest_def linux_writeCommand_def fun_eq_iff)
  ultimately show ?thesis using w by (simp add: charIO_leaves_def newLinuxCharIO_def)
qed

subsection \<open>Connecting\<close>

lemma wait_leaves:
  assumes laws: "link_laws bus sys links" and "waitServicesResolved bus path evs w = Some (r, w')"
  shows "links w' = links w"
  using assms(2) link_laws_states [OF laws] link_laws_leaves(9,10) [OF laws]
  by (auto simp: waitServicesResolved_def Let_def leaves_def split: if_splits option.splits prod.splits
      dest!: link_calls(3) [OF laws] link_calls(9) [OF laws])

lemma getManagedObjects_leaves:
  assumes "link_laws bus sys links"
  shows "leaves links (getManagedObjects bus)"
  using link_laws_leaves(5) [OF assms] by (simp add: leaves_def getManagedObjects_state)

text \<open>
  A connection that is returned is a link, over which nothing but closing it changes the links; a
  connect that fails gives the link back.
\<close>

lemma linux_connect_links:
  assumes laws: "link_laws bus sys links"
    and conn: "linux_connect bus sys adv (LinuxAddr path mac) evs w = Some (Inr conn, w')"
  shows "links w' = insert path (links w)" "conn_closer conn = FlagCloser (DeviceDisconnect bus path)"
    "\<not> conn_closed conn" "transport_leaves links (NewTransport conn)"
proof -
  let ?conn = "\<lparr>charNotify = None, charCmd = None, charPair = None, conn_gwMAC = AMAC adv,
     conn_closer = FlagCloser (DeviceDisconnect bus path), conn_closed = False\<rparr>"
  let ?m = "\<lambda>objs. char_paths (path @ ''/'') objs Map.empty"
  from conn obtain w1 w2 objs v where d: "DeviceConnect bus path w = (None, w1)"
    and wait: "waitServicesResolved bus path evs w1 = Some (None, w2)"
    and objs: "getManagedObjects bus w2 = (Inr objs, v)"
    and fill: "fill_required (newLinuxCharIO bus sys) (?m objs) requireds ?conn v = (Inr conn, w')"
    by (auto simp: linux_connect_def Let_def split: prod.splits option.splits sum.splits)
  note ok = fill_required_ok [OF fill]
  from link_laws_Connect [OF laws d] wait_leaves [OF laws wait] leavesD [OF getManagedObjects_leaves [OF laws] objs] ok
  show "links w' = insert path (links w)" by simp
  from ok show "conn_closer conn = FlagCloser (DeviceDisconnect bus path)" "\<not> conn_closed conn" by simp_all
  from ok show "transport_leaves links (NewTransport conn)"
    using linux_char_leaves [OF laws]
    by (intro NewTransport_leaves) (auto dest!: sym [of "Some _"] simp: map_option_eq_Some)
qed

lemma set_char_closer [simp]:
  "conn_closer (set_char u io conn) = conn_closer conn" "conn_closed (set_char u io conn) = conn_closed conn"
  by (simp_all add: set_char_def)

lemma fill_required_Inl:
  "fill_required mk m rs conn w = (Inl err, w') \<Longrightarrow> conn_closer conn = FlagCloser d \<Longrightarrow> \<not> conn_closed conn \<Longrightarrow>
   w' = snd (d w)"
  by (induction mk m rs conn w rule: fill_required.induct)
    (auto simp: Connection_Close_def split: option.splits prod.splits)

lemma linux_connect_fails:
  assumes laws: "link_laws bus sys links" and disc: "\<And>v. fst (DeviceDisconnect bus path v) = None"
    and conn: "linux_connect bus sys adv (LinuxAddr path mac) evs w = Some (Inl err, w')"
  shows "links w' \<subseteq> links w"
proof -
  have gone: "links (snd (DeviceDisconnect bus path v)) = links v - {path}" for v
    by (simp add: link_laws_Disconnect [OF laws] disc)
  obtain e w1 where d: "DeviceConnect bus path w = (e, w1)" by fastforce
  note l1 = link_laws_Connect [OF laws d]
  show ?thesis
  proof (cases e)
    case (Some err')
    with conn d l1 show ?thesis by (simp add: linux_connect_def)
  next
    case None
    with conn d obtain r w2 where wait: "waitServicesResolved bus path evs w1 = Some (r, w2)"
      by (auto simp: linux_connect_def split: option.splits)
    note l2 = wait_leaves [OF laws wait]
    obtain os w3 where objs: "getManagedObjects bus w2 = (os, w3)" by fastforce
    note l3 = leavesD [OF getManagedObjects_leaves [OF laws] objs]
    show ?thesis
    proof (cases "r = None \<and> (\<exists>objs. os = Inr objs)")
      case False
      with conn d None wait objs have "w' = snd (DeviceDisconnect bus path w2) \<or> w' = snd (DeviceDisconnect bus path w3)"
        by (auto simp: linux_connect_def Let_def split: option.splits sum.splits)
      with l1 l2 l3 None show ?thesis by (auto simp: gone)
    next
      case True
      then obtain o' where o': "r = None" "os = Inr o'" by blast
      let ?conn = "\<lparr>charNotify = None, charCmd = None, charPair = None, conn_gwMAC = AMAC adv,
         conn_closer = FlagCloser (DeviceDisconnect bus path), conn_closed = False\<rparr>"
      from conn d None wait objs o' have
        "fill_required (newLinuxCharIO bus sys) (char_paths (path @ ''/'') o' Map.empty) requireds ?conn w3 = (Inl err, w')"
        by (simp add: linux_connect_def Let_def)
      then have "w' = snd (DeviceDisconnect bus path w3)" by (rule fill_required_Inl) simp_all
      with l1 l2 l3 None show ?thesis by (auto simp: gone)
    qed
  qed
qed

text \<open>Closing such a connection removes its link.\<close>

lemma Close_link:
  assumes "link_laws bus sys links" "fst (DeviceDisconnect bus path w) = None"
    and "conn_closer conn = FlagCloser (DeviceDisconnect bus path)" "\<not> conn_closed conn"
  shows "links (snd (snd (Connection_Close conn w))) = links w - {path}"
  using assms(2-4) link_laws_Disconnect [OF assms(1), of path w]
  by (simp add: Connection_Close_def split_beta)

subsection \<open>A subscription that fails halfway\<close>

text \<open>
  When the write that starts the notifications is refused, \<open>SubscribeNotify\<close> returns its error, but
  the socket is open and its reader runs on until the context is done.
\<close>

lemma SubscribeNotify_socket:
  assumes "sys_laws sys fds" "\<And>d ty. leaves fds (WriteValue bus path d ty)"
    "\<And>i n. leaves fds (GetProperty bus path i n)"
    and "charNotify conn = Some (newLinuxCharIO bus sys path)"
    and sub: "Transport_SubscribeNotify conn w = Some (r, w')"
  shows "if \<exists>err. r = Some (Wrapf ''ble: enabling notifications: %w'' [err]) then fds w' = fds w
     else \<exists>fd. fd \<notin> fds w \<and> fds w' = insert fd (fds w)"
proof -
  obtain r1 w1 where h: "readHandle bus path w = (r1, w1)" by fastforce
  then have l1: "fds w1 = fds w"
    by (auto simp: readHandle_def split: prod.splits sum.splits Variant.splits dest: leavesD [OF assms(3)])
  obtain r2 w2 where o: "openHCIRaw sys w1 = (r2, w2)" by fastforce
  note l2 = openHCIRaw_fds [OF assms(1) o]
  have l3: "WriteValue bus path d ty v = (e, v') \<Longrightarrow> fds v' = fds v" for d ty v e v'
    by (rule leavesD [OF assms(2) [of d ty]])
  have new: "fd \<notin> fds w1" if "r2 = Inr fd" for fd
    using o assms(1) that
    by (auto simp: openHCIRaw_def sys_laws_def split: prod.splits sum.splits option.splits dest: spec [where x = w1])
  show ?thesis
    using sub h o l1 l2 new assms(4)
    by (auto simp: Transport_SubscribeNotify_def newLinuxCharIO_def linux_subscribe_start_def linux_writeRequest_def
        linux_writeValue_def wrap_error_def Let_def split: prod.splits sum.splits option.splits dest!: l3)
qed

end
