(* ===== verification/Programs.thy ===== *)
theory Programs
  imports Session Ble_Connect "HOL-Library.AList"
begin

section \<open>cmd/fixture and ble/cmd: the programs around the library\<close>

text \<open>
  The programs scan, pick a node, connect, log in, subscribe and send a few commands; one prints
  values of the cryptography. Flags are arguments, printed progress is left out (what
  cmd/fixture prints is its purpose and is modelled), and times are arguments.
  \<open>log.Fatalf\<close> ends the process with a message and runs no deferred call: \<open>Fatal\<close> with the
  message's format and the error.
\<close>

datatype 'b outcome = Fatal string "go_error option" | Ready 'b

subsection \<open>ble/types.go: the adapter\<close>

text \<open>
  \<open>Adapter\<close> only forwards to the platform's \<open>adapterImpl\<close>. A scan is the list of results its channel
  delivers before it is closed; connecting may never return (\<open>None\<close>). The scan's goroutine is taken
  to have ended before the program goes on (\<open>Scan_Steps\<close> has it run beside the caller, \<open>Scan_Pick\<close> beside
  the program's loop).
\<close>

record ('w, 'a) adapterImpl =
  impl_scan :: "ScanFilter \<Rightarrow> 'w \<Rightarrow> (go_error + 'a ScanResult list) \<times> 'w"
  impl_stopScan :: "'w \<Rightarrow> go_error option \<times> 'w"
  impl_connect :: "Advertisement \<Rightarrow> 'a \<Rightarrow> 'w \<Rightarrow> ((go_error + 'w Connection) \<times> 'w) option"

record ('w, 'a) Adapter =
  impl :: "('w, 'a) adapterImpl"

definition Adapter_Scan :: "('w, 'a) Adapter \<Rightarrow> ScanFilter \<Rightarrow> 'w \<Rightarrow> (go_error + 'a ScanResult list) \<times> 'w" where
  "Adapter_Scan a flt w = impl_scan (impl a) flt w"

definition Adapter_StopScan :: "('w, 'a) Adapter \<Rightarrow> 'w \<Rightarrow> go_error option \<times> 'w" where
  "Adapter_StopScan a w = impl_stopScan (impl a) w"

definition Adapter_Connect ::
    "('w, 'a) Adapter \<Rightarrow> Advertisement \<Rightarrow> 'a \<Rightarrow> 'w \<Rightarrow> ((go_error + 'w Connection) \<times> 'w) option" where
  "Adapter_Connect a adv addr w = impl_connect (impl a) adv addr w"

lemmas adapter_methods = Adapter_Scan_def Adapter_StopScan_def Adapter_Connect_def

definition linux_adapter ::
    "'w Bus \<Rightarrow> 'w Sys \<Rightarrow> ObjectPath \<Rightarrow> signal list \<Rightarrow> wait_event list \<Rightarrow> ('w, ObjectPath \<times> string) Adapter" where
  "linux_adapter bus sys adapterPath sigs evs =
     \<lparr>impl = \<lparr>impl_scan = (\<lambda>flt w.
        case linux_scan bus adapterPath w of
          (Some err, w) \<Rightarrow> (Inl err, w)
        | (None, w) \<Rightarrow> (case scan_goroutine bus adapterPath flt sigs w of (rs, w) \<Rightarrow> (Inr rs, w))),
      impl_stopScan = linux_stopScan bus adapterPath,
      impl_connect = (\<lambda>adv (path, mac) w. linux_connect bus sys adv (LinuxAddr path mac :: unit Addr) evs w)\<rparr>\<rparr>"

text \<open>The adapter of the other platforms: the calls of tinygo's adapter, and the reports of its scan.\<close>

definition tinygo_adapter ::
    "('w \<Rightarrow> go_error option \<times> 'w) \<Rightarrow> ('a \<Rightarrow> 'w \<Rightarrow> (go_error + 'w TinyDevice) \<times> 'w) \<Rightarrow> 'a TinyScan list \<Rightarrow> bool \<Rightarrow>
     ('w, 'a) Adapter" where
  "tinygo_adapter bt_StopScan bt_Connect reports stopped =
     \<lparr>impl = \<lparr>impl_scan = (\<lambda>flt w. case tinygo_scan bt_StopScan reports flt stopped w of (rs, w) \<Rightarrow> (Inr rs, w)),
      impl_stopScan = bt_StopScan,
      impl_connect = (\<lambda>adv a w. Some (tinygo_connect bt_Connect adv (TinyAddr a) w))\<rparr>\<rparr>"

text \<open>\<open>NewAdapter\<close> on either platform, with what the adapter will see later.\<close>

definition linux_newAdapter ::
    "('w \<Rightarrow> (go_error + 'w Bus) \<times> 'w) \<Rightarrow> 'w Sys \<Rightarrow> signal list \<Rightarrow> wait_event list \<Rightarrow>
     'w \<Rightarrow> (go_error + ('w, ObjectPath \<times> string) Adapter) \<times> 'w" where
  "linux_newAdapter SystemBus sys sigs evs w =
     (case linux_NewAdapter SystemBus w of
        (Inl err, w) \<Rightarrow> (Inl err, w)
      | (Inr (bus, path), w) \<Rightarrow> (Inr (linux_adapter bus sys path sigs evs), w))"

definition tinygo_newAdapter ::
    "('w \<Rightarrow> go_error option \<times> 'w) \<Rightarrow> ('w, 'a) Adapter \<Rightarrow> 'w \<Rightarrow> (go_error + ('w, 'a) Adapter) \<times> 'w" where
  "tinygo_newAdapter bt_Enable adapter w =
     (case tinygo_NewAdapter bt_Enable w of
        (Some err, w) \<Rightarrow> (Inl err, w)
      | (None, w) \<Rightarrow> (Inr adapter, w))"

lemma linux_adapter_scan:
  assumes "Adapter_Scan (linux_adapter bus sys ap sigs evs) flt w = (Inr results, w')" "r \<in> set results"
  shows "matches flt (r_Advertisement r)"
  using assms scan_linux_matches
  by (auto simp: adapter_methods linux_adapter_def scan_goroutine_def split: prod.splits option.splits)

lemma linux_adapter_connect:
  assumes "Adapter_Connect (linux_adapter bus sys ap sigs evs) adv addr w = Some (Inr conn, w')"
  shows "complete conn \<and> conn_gwMAC conn = AMAC adv"
proof -
  obtain path mac where a: "addr = (path, mac)" by (cases addr)
  from assms have "linux_connect bus sys adv (LinuxAddr path mac :: unit Addr) evs w = Some (Inr conn, w')"
    by (simp add: a adapter_methods linux_adapter_def)
  from linux_connect_ok [OF this] show ?thesis by blast
qed

subsection \<open>Picking a node\<close>

text \<open>
  The loop over the results: the strongest so far, until a gateway comes, which is taken at once.
  \<open>RSSI\<close> is a signed 16-bit number.
\<close>

definition is_gateway :: "'a ScanResult \<Rightarrow> bool" where
  "is_gateway r \<longleftrightarrow> DeviceType (r_Advertisement r) = DeviceTypeGateway"

fun pick_best :: "'a ScanResult option \<Rightarrow> 'a ScanResult list \<Rightarrow> 'a ScanResult option" where
  "pick_best best [] = best"
| "pick_best best (r # rs) =
     (let best = (case best of
                    None \<Rightarrow> Some r
                  | Some b \<Rightarrow> if sint (r_RSSI r) > sint (r_RSSI b) then Some r else Some b)
      in if is_gateway r then Some r else pick_best best rs)"

lemma pick_best_gateway:
  "(\<exists>r \<in> set rs. is_gateway r) \<Longrightarrow> pick_best best rs = find is_gateway rs"
  by (induction best rs rule: pick_best.induct) (auto simp: Let_def)

lemma pick_best_strongest:
  assumes "\<forall>r \<in> set rs. \<not> is_gateway r" "pick_best best rs = Some b"
  shows "b \<in> set_option best \<union> set rs \<and> (\<forall>r \<in> set_option best \<union> set rs. sint (r_RSSI r) \<le> sint (r_RSSI b))"
  using assms
proof (induction best rs rule: pick_best.induct)
  case (2 best r rs)
  let ?best = "case best of None \<Rightarrow> Some r
     | Some b \<Rightarrow> if sint (r_RSSI r) > sint (r_RSSI b) then Some r else Some b"
  from "2.prems" have "pick_best ?best rs = Some b" by (simp add: Let_def)
  with "2.IH" "2.prems" have "b \<in> set_option ?best \<union> set rs \<and>
      (\<forall>r \<in> set_option ?best \<union> set rs. sint (r_RSSI r) \<le> sint (r_RSSI b))" by simp
  then show ?case by (cases best) (auto split: if_splits)
qed simp

lemma pick_best_None: "pick_best best rs = None \<longleftrightarrow> best = None \<and> rs = []"
  by (induction best rs rule: pick_best.induct) (auto simp: Let_def split: option.splits)

lemma pick_best_spec:
  assumes "pick_best None rs = Some b"
  shows "b \<in> set rs \<and> (find is_gateway rs = Some b \<or>
     (\<forall>r \<in> set rs. \<not> is_gateway r \<and> sint (r_RSSI r) \<le> sint (r_RSSI b)))"
proof (cases "\<exists>r \<in> set rs. is_gateway r")
  case True
  with pick_best_gateway [OF True, of None] assms have f: "find is_gateway rs = Some b" by simp
  then have "b \<in> set rs" by (auto simp: find_Some_iff)
  with f show ?thesis by simp
next
  case False
  with pick_best_strongest [of rs None b] assms show ?thesis by auto
qed

subsection \<open>From the scan to a session\<close>

text \<open>
  The common part of the programs: \<open>stops\<close> is whether the scan is stopped explicitly (smoke-linux
  only), \<open>label\<close> the message for a scan that does not start. A connection without a pair
  characteristic would make the login panic (\<open>None\<close>).
\<close>

definition start_session ::
    "bool \<Rightarrow> string \<Rightarrow> ('w, 'a) Adapter \<Rightarrow> go_error + byte list \<Rightarrow> go_error + byte list \<Rightarrow> string \<Rightarrow> string \<Rightarrow>
     'w \<Rightarrow> (('a ScanResult \<times> 'w Connection \<times> Client) outcome \<times> 'w) option" where
  "start_session stops label adapter rndA rndSalt meshName meshPassword w =
     (case Adapter_Scan adapter \<lparr>f_MeshName = meshName, f_NetworkID = 0, f_GatewayOnly = False\<rparr> w of
          (Inl err, w) \<Rightarrow> Some (Fatal label (Some err), w)
        | (Inr results, w) \<Rightarrow>
        case pick_best None results of
          None \<Rightarrow> Some (Fatal ''no matching mesh node found'' None, w)
        | Some best \<Rightarrow>
        let w = (if stops then snd (Adapter_StopScan adapter w) else w) in
        case Adapter_Connect adapter (r_Advertisement best) (r_Address best) w of
          None \<Rightarrow> None
        | Some (Inl err, w) \<Rightarrow> Some (Fatal ''connect: %v'' (Some err), w)
        | Some (Inr conn, w) \<Rightarrow>
        if charPair conn = None then None
        else
          let transport = NewTransport conn;
              client = NewClient (GatewayMAC transport w) []
          in case Login transport rndA rndSalt meshName meshPassword client w of
               (Some err, client, w) \<Rightarrow> Some (Fatal ''login: %v'' (Some err), w)
             | (None, client, w) \<Rightarrow> Some (Ready (best, conn, client), w))"

lemma start_session_Ready:
  assumes "start_session stops label adapter rndA rndSalt name pass w = Some (Ready (best, conn, client), w')"
  obtains results w1 w2 w3 where
    "Adapter_Scan adapter \<lparr>f_MeshName = name, f_NetworkID = 0, f_GatewayOnly = False\<rparr> w = (Inr results, w1)"
    "pick_best None results = Some best"
    "Adapter_Connect adapter (r_Advertisement best) (r_Address best) w2 = Some (Inr conn, w3)"
    "Login (NewTransport conn) rndA rndSalt name pass (NewClient (conn_gwMAC conn) []) w3 = (None, client, w')"
  using assms
  by (auto simp: start_session_def Let_def NewTransport_def Transport_GatewayMAC_def
      split: if_splits sum.splits option.splits prod.splits)

text \<open>A device that advertises the mesh ''n'', on the bus of the example: the session is there.\<close>

definition example_device :: Properties where
  "example_device = Map.empty(''ManufacturerData'' \<mapsto> VData [ManufacturerIDSkytone \<mapsto> VBytes (replicate 15 7)],
     ''Name'' \<mapsto> VString ''n'')"

lemma bus_scan:
  assumes "linux_scan bus ap w = (None, w1)" "getManagedObjects bus w1 = (Inr objs, w2)"
    "list_all (\<lambda>(p, ifs). ifs bluezDeviceIface = None) objs" "fst (StartDiscovery bus ap w2) = None"
  shows "\<exists>r w'. Adapter_Scan (linux_adapter bus sys ap
       [InterfacesAdded ''/d'' (Map.empty(bluezDeviceIface \<mapsto> example_device))] evs)
       \<lparr>f_MeshName = ''n'', f_NetworkID = 0, f_GatewayOnly = False\<rparr> w = (Inr [r], w') \<and> fst (r_Address r) = ''/d''"
proof -
  let ?flt = "\<lparr>f_MeshName = ''n'', f_NetworkID = 0, f_GatewayOnly = False\<rparr>"
  have "ParseAdvertisement (replicate 15 7) \<noteq> None" by (simp add: ParseAdvertisement_None)
  then obtain adv where "ParseAdvertisement (replicate 15 7) = Some adv" by blast
  then have "\<exists>r. maybeEmit ''/d'' example_device ?flt = Some r \<and> fst (r_Address r) = ''/d''"
    by (simp add: maybeEmit_def example_device_def as_string_def ParseManufacturerData_Skytone Let_def)
  then obtain r where r: "maybeEmit ''/d'' example_device ?flt = Some r" "fst (r_Address r) = ''/d''" by blast
  have "scan_seed ?flt objs = []" using assms(3) by (induction objs) auto
  with r assms(2,4) have "fst (scan_goroutine bus ap ?flt
      [InterfacesAdded ''/d'' (Map.empty(bluezDeviceIface \<mapsto> example_device))] w1) = [r]"
    by (simp add: scan_goroutine_def scan_linux_def mergeProps_def emit_list_def Let_def split_beta)
  with assms(1) r show ?thesis by (auto simp: adapter_methods linux_adapter_def split: prod.splits)
qed

lemma example_scan:
  "\<exists>r w'. Adapter_Scan (linux_adapter example_bus example_sys ap
       [InterfacesAdded ''/d'' (Map.empty(bluezDeviceIface \<mapsto> example_device))] evs)
       \<lparr>f_MeshName = ''n'', f_NetworkID = 0, f_GatewayOnly = False\<rparr> w = (Inr [r], w') \<and> fst (r_Address r) = ''/d''"
proof -
  obtain w1 where w1: "linux_scan example_bus ap w = (None, w1)" by (simp add: linux_scan_def scan_rules_def)
  show ?thesis
    by (rule bus_scan [OF w1, where objs = example_objects])
      (simp_all add: getManagedObjects_def example_objects_def example_char_def go_const)
qed

lemma example_session:
  "\<exists>best conn client w'. start_session False msg (linux_adapter example_bus example_sys ap
       [InterfacesAdded ''/d'' (Map.empty(bluezDeviceIface \<mapsto> example_device))] [])
     (Inr (replicate 8 5)) (Inr [3, 4]) ''n'' ''p'' w = Some (Ready (best, conn, client), w')"
proof -
  let ?ad = "linux_adapter example_bus example_sys ap
     [InterfacesAdded ''/d'' (Map.empty(bluezDeviceIface \<mapsto> example_device))] []"
  obtain r w1 where scan: "Adapter_Scan ?ad \<lparr>f_MeshName = ''n'', f_NetworkID = 0, f_GatewayOnly = False\<rparr> w =
      (Inr [r], w1)" "fst (r_Address r) = ''/d''" using example_scan by blast
  have pick: "pick_best None [r] = Some r" by simp
  obtain mac where "r_Address r = (''/d'', mac)" using scan(2) by (cases "r_Address r") simp
  with example_connects [of "r_Advertisement r" mac w1] obtain conn p where
    conn: "Adapter_Connect ?ad (r_Advertisement r) (r_Address r) w1 = Some (Inr conn, w1)"
      "charPair conn = Some (newLinuxCharIO example_bus example_sys p)"
    by (auto simp: adapter_methods linux_adapter_def)
  have resp: "ParseLoginResponse (0x0D # replicate 16 7) = Inr (replicate 8 7)"
    by (simp add: ParseLoginResponse_def LoginResponseTag_def numeral_eq_Suc)
  have "\<exists>client. Login (NewTransport conn) (Inr (replicate 8 5)) (Inr [3, 4]) ''n'' ''p''
      (NewClient (GatewayMAC (NewTransport conn) w1) []) w1 = (None, client, w1)"
    using conn(2) resp
    by (simp add: Login_def randomSalt_def Let_def transport_methods wrap_error_def newLinuxCharIO_def
        linux_writeRequest_def linux_writeValue_def linux_read_def)
  then show ?thesis using scan(1) pick conn
    by (auto simp: start_session_def Let_def simp del: pick_best.simps)
qed

subsection \<open>Commands until one fails\<close>

fun send_list ::
    "'w Transport \<Rightarrow> (string \<times> Command) list \<Rightarrow> Client \<Rightarrow> 'w \<Rightarrow> (unit outcome \<times> Client \<times> 'w) option" where
  "send_list t [] c w = Some (Ready (), c, w)"
| "send_list t ((label, cmd) # cmds) c w =
     (case Send t cmd c w of
        None \<Rightarrow> None
      | Some (Some err, c, w) \<Rightarrow> Some (Fatal label (Some err), c, w)
      | Some (None, c, w) \<Rightarrow> send_list t cmds c w)"

text \<open>When every command is sent, the calls of \<open>Send\<close> are those of the list, in its order.\<close>

lemma send_list_Ready:
  "send_list t cmds c w = Some (Ready u, c', w') \<longleftrightarrow>
     send_all t (map snd cmds) c w = Some (replicate (length cmds) None, c', w')"
proof (induction t cmds c w rule: send_list.induct)
  case (2 t label cmd cmds c w)
  show ?case
  proof (cases "Send t cmd c w")
    case (Some r)
    obtain e c1 w1 where r: "r = (e, c1, w1)" by (cases r)
    show ?thesis
    proof (cases e)
      case None
      with 2 Some r show ?thesis by (auto simp: map_option_case split: option.splits)
    next
      case (Some x)
      with \<open>Send t cmd c w = Some r\<close> r show ?thesis by (auto split: option.splits)
    qed
  qed simp
qed simp

lemma send_all_append:
  "send_all t (as @ bs) c w =
     (case send_all t as c w of
        None \<Rightarrow> None
      | Some (es, c', w') \<Rightarrow> map_option (\<lambda>(es', c'', w''). (es @ es', c'', w'')) (send_all t bs c' w'))"
  by (induction as arbitrary: c w)
    (auto simp: option.map_ident map_option_case split: option.splits prod.splits)

subsection \<open>smoke: the statuses\<close>

text \<open>
  The goroutine that reads the notifications keeps the last status of every address in a map;
  the map is an association list without repeated keys. \<open>addrs\<close> is sorted for the report.
\<close>

type_synonym statuses = "(u16 \<times> DeviceStatus) list"

definition mudroomAddr :: u16 where
  [go_const]: "mudroomAddr = 9"

definition collect_status :: "Notification \<Rightarrow> statuses \<Rightarrow> statuses" where
  "collect_status n st =
     (if NOpcode n = OpNotifyStatusPoll then
        (case ParseDeviceStatus n of
           Inl _ \<Rightarrow> st
         | Inr ds \<Rightarrow> AList.update (DAddress ds) ds st)
      else if NOpcode n = OpNotifyStatusBroadcast then
        (case ParseDeviceStatusBroadcast n of
           Inl _ \<Rightarrow> st
         | Inr ds_list \<Rightarrow> fold (\<lambda>ds. AList.update (DAddress ds) ds) ds_list st)
      else st)"

definition collect_all :: "Notification list \<Rightarrow> statuses" where
  "collect_all ns = fold collect_status ns []"

definition onOff :: "bool \<Rightarrow> string" where
  "onOff on = (if on then ''ON'' else ''OFF'')"

text \<open>A line of the report: address, state, type, subtype, and whether it is the marked device.\<close>

definition status_rows :: "statuses \<Rightarrow> (u16 \<times> string \<times> byte \<times> byte \<times> bool) list" where
  "status_rows st =
     map (\<lambda>a. case map_of st a of
            Some ds \<Rightarrow> (a, onOff (On ds), DType ds, DSubtype ds, a = mudroomAddr)
          | None \<Rightarrow> (a, onOff False, 0, 0, a = mudroomAddr))
       (sort (map fst st))"

lemma distinct_fold_update:
  "distinct (map fst st) \<Longrightarrow> distinct (map fst (fold (\<lambda>ds. AList.update (DAddress ds) ds) l st))"
  by (induction l arbitrary: st) (simp_all add: distinct_update)

lemma distinct_collect: "distinct (map fst st) \<Longrightarrow> distinct (map fst (collect_status n st))"
  by (simp add: collect_status_def distinct_update distinct_fold_update split: sum.split)

lemma distinct_collect_all: "distinct (map fst (collect_all ns))"
proof -
  have "distinct (map fst st) \<Longrightarrow> distinct (map fst (fold collect_status ns st))" for st
    by (induction ns arbitrary: st) (simp_all add: distinct_collect)
  then show ?thesis by (simp add: collect_all_def)
qed

text \<open>The report has one line per device, in the order of the addresses.\<close>

lemma status_rows_sorted: "sorted_wrt (<) (map fst (status_rows (collect_all ns)))"
proof -
  let ?st = "collect_all ns"
  have "map fst (status_rows ?st) = sort (map fst ?st)"
    by (auto simp: status_rows_def intro!: map_idI split: option.splits)
  moreover have "distinct (sort (map fst ?st))" by (simp add: distinct_collect_all)
  ultimately show ?thesis by (simp add: strict_sorted_iff)
qed

text \<open>A poll that comes last decides the status of its device.\<close>

lemma collect_last:
  "ParseDeviceStatus n = Inr ds \<Longrightarrow> map_of (collect_all (ns @ [n])) (DAddress ds) = Some ds"
  by (auto simp: collect_all_def collect_status_def ParseDeviceStatus_def update_conv Let_def split: if_splits)

subsection \<open>smoke: the commands\<close>

definition smoke_opening :: "64 word \<Rightarrow> (string \<times> Command) list" where
  "smoke_opening now =
     [(''set_utc: %v'', SetUTC now), (''status query: %v'', StatusQuery),
      (''blind on: %v'', OnOff mudroomAddr True), (''blind off: %v'', OnOff mudroomAddr False)]"

definition smoke_toggle :: "bool \<Rightarrow> (string \<times> Command) list" where
  "smoke_toggle originallyOn =
     [(''toggle: %v'', OnOff mudroomAddr (\<not> originallyOn)), (''restore: %v'', OnOff mudroomAddr originallyOn)]"

text \<open>
  The program after the login; \<open>ns\<close> are the notifications received when the statuses are read.
  (Both goroutines use the map without a lock; here the reads come after the writes.)
\<close>

definition smoke_body ::
    "'w Transport \<Rightarrow> 64 word \<Rightarrow> Notification list \<Rightarrow> Client \<Rightarrow> 'w \<Rightarrow> (statuses outcome \<times> Client \<times> 'w) option" where
  "smoke_body t now ns c w =
     (case Notifications t c w of
        (Some err, c, w) \<Rightarrow> Some (Fatal ''subscribe: %v'' (Some err), c, w)
      | (None, c, w) \<Rightarrow>
     case send_list t (smoke_opening now) c w of
        None \<Rightarrow> None
      | Some (Fatal msg err, c, w) \<Rightarrow> Some (Fatal msg err, c, w)
      | Some (Ready _, c, w) \<Rightarrow>
     let statuses = collect_all ns in
     case map_of statuses mudroomAddr of
        None \<Rightarrow> Some (Ready statuses, c, w)
      | Some mudroom \<Rightarrow>
     case send_list t (smoke_toggle (On mudroom)) c w of
        None \<Rightarrow> None
      | Some (Fatal msg err, c, w) \<Rightarrow> Some (Fatal msg err, c, w)
      | Some (Ready _, c, w) \<Rightarrow> Some (Ready statuses, c, w))"

lemma smoke_body_sends:
  assumes "smoke_body t now ns c w = Some (Ready st, c', w')" "map_of st mudroomAddr = Some ds"
  shows "st = collect_all ns \<and>
     (\<exists>c1 w1. Notifications t c w = (None, c1, w1) \<and>
        send_all t [SetUTC now, StatusQuery, OnOff mudroomAddr True, OnOff mudroomAddr False,
            OnOff mudroomAddr (\<not> On ds), OnOff mudroomAddr (On ds)] c1 w1 =
          Some (replicate 6 None, c', w'))"
proof -
  from assms obtain c1 w1 c2 w2 u v where n: "Notifications t c w = (None, c1, w1)"
    and s1: "send_list t (smoke_opening now) c1 w1 = Some (Ready u, c2, w2)"
    and st: "st = collect_all ns" and s2: "send_list t (smoke_toggle (On ds)) c2 w2 = Some (Ready v, c', w')"
    by (auto simp: smoke_body_def Let_def split: prod.splits option.splits outcome.splits)
  let ?a = "map snd (smoke_opening now)" and ?b = "map snd (smoke_toggle (On ds))"
  have len: "length (smoke_opening now) = 4" "length (smoke_toggle (On ds)) = 2"
    by (simp_all add: smoke_opening_def smoke_toggle_def)
  have "replicate 6 (None :: go_error option) = replicate 4 None @ replicate 2 None"
    by (simp add: replicate_add [symmetric])
  with s1 s2 have "send_all t (?a @ ?b) c1 w1 = Some (replicate 6 None, c', w')"
    unfolding send_list_Ready send_all_append len by simp
  moreover have "?a @ ?b = [SetUTC now, StatusQuery, OnOff mudroomAddr True, OnOff mudroomAddr False,
      OnOff mudroomAddr (\<not> On ds), OnOff mudroomAddr (On ds)]"
    by (simp add: smoke_opening_def smoke_toggle_def)
  ultimately show ?thesis using n st by simp
qed

text \<open>With a session and a transport that never fails, the program runs to its end.\<close>

lemma send_list_runs:
  assumes "s_loggedIn (c_session c)" "\<And>p w. fst (WriteCommand t p w) = None"
    and "\<forall>x \<in> set cmds. 5 \<le> PlaintextLen (snd x)"
  shows "\<exists>c' w'. send_list t cmds c w = Some (Ready (), c', w') \<and> s_loggedIn (c_session c')"
  using assms(1,3)
proof (induction cmds arbitrary: c w)
  case (Cons x cmds)
  obtain msg cmd where x: "x = (msg, cmd)" by (cases x)
  obtain sno s where sno: "nextSNO (c_session c) = (sno, s)" by (cases "nextSNO (c_session c)")
  obtain pt where pt: "Encode cmd = Some pt" using Cons.prems x Encode_panics_iff [of cmd] by auto
  let ?p = "Encrypt (s_key (c_session c)) (CommandNonce (s_gwMAC (c_session c)) sno) sno pt"
  obtain w1 where w1: "WriteCommand t ?p w = (None, w1)" using assms(2) [of ?p w] by (cases "WriteCommand t ?p w") simp
  have "s_loggedIn (c_session (c\<lparr>c_session := s\<rparr>))" using sno Cons.prems by (auto simp: nextSNO_def)
  from Cons.IH [OF this, of w1] Cons.prems(2) Send_logged_in [OF Cons.prems(1) sno pt w1] x show ?case by simp
qed simp

lemma smoke_body_runs:
  assumes "s_loggedIn (c_session c)" "\<not> notifyActive c" "\<And>p w. fst (WriteCommand t p w) = None"
    and "fst (SubscribeNotify t w) = None"
  shows "\<exists>st c' w'. smoke_body t now ns c w = Some (Ready st, c', w')"
proof -
  obtain w1 where "SubscribeNotify t w = (None, w1)" using assms(4) by (cases "SubscribeNotify t w") simp
  with assms(1,2) have n: "Notifications t c w = (None, c\<lparr>notifyActive := True\<rparr>, w1)"
    by (simp add: Notifications_None)
  have fits: "\<forall>x \<in> set (smoke_opening now). 5 \<le> PlaintextLen (snd x)"
    "\<forall>x \<in> set (smoke_toggle b). 5 \<le> PlaintextLen (snd x)" for b
    by (simp_all add: smoke_opening_def smoke_toggle_def SetUTC_def StatusQuery_def withDst_def OnOff_def Let_def)
  have "s_loggedIn (c_session (c\<lparr>notifyActive := True\<rparr>))" using assms(1) by simp
  from send_list_runs [OF this assms(3) fits(1), of w1] obtain c2 w2 where
    o: "send_list t (smoke_opening now) (c\<lparr>notifyActive := True\<rparr>) w1 = Some (Ready (), c2, w2)"
    and l: "s_loggedIn (c_session c2)" by blast
  show ?thesis
  proof (cases "map_of (collect_all ns) mudroomAddr")
    case None
    with n o show ?thesis by (simp add: smoke_body_def Let_def)
  next
    case (Some ds)
    from send_list_runs [OF l assms(3) fits(2) [of "On ds"], of w2] n o Some show ?thesis
      by (auto simp: smoke_body_def Let_def)
  qed
qed

subsection \<open>listen and smoke-linux\<close>

definition opcodeName :: "byte \<Rightarrow> string" where
  "opcodeName op =
     (if op = OpNotifyStatusPoll then ''status-poll''
      else if op = OpNotifyStatusBroadcast then ''status-broadcast''
      else ''?'')"

text \<open>
  The loop of listen: what its \<open>select\<close> comes out with, one event after the other. After a
  notification the loop is left if the deadline has passed meanwhile (\<open>late\<close>). \<open>None\<close> is a loop that
  still waits at the end of the list.
\<close>

datatype listen_event =
    ListenDone
  | ListenPacket Notification bool
  | ListenClosed
  | ListenDeadline

fun listen_loop :: "listen_event list \<Rightarrow> (byte \<Rightarrow> nat) \<Rightarrow> (byte \<Rightarrow> nat) option" where
  "listen_loop [] counts = None"
| "listen_loop (ListenPacket n late # evs) counts =
     (let counts = counts(NOpcode n := counts (NOpcode n) + 1)
      in if late then Some counts else listen_loop evs counts)"
| "listen_loop (_ # evs) counts = Some counts"

text \<open>The notifications the loop has taken when it ends.\<close>

fun listened :: "listen_event list \<Rightarrow> Notification list" where
  "listened (ListenPacket n late # evs) = n # (if late then [] else listened evs)"
| "listened _ = []"

lemma listen_loop_counts:
  "listen_loop evs counts = Some result \<Longrightarrow>
   result op = counts op + length (filter (\<lambda>n. NOpcode n = op) (listened evs))"
  by (induction evs counts rule: listen_loop.induct) (auto simp: Let_def split: if_splits)

lemma listen_loop_ends:
  "\<exists>ev \<in> set evs. (\<forall>n. ev \<noteq> ListenPacket n False) \<Longrightarrow> listen_loop evs counts \<noteq> None"
proof (induction evs arbitrary: counts)
  case (Cons ev evs)
  then show ?case by (cases ev) (auto simp: Let_def)
qed simp

text \<open>
  Both programs subscribe and send the time; then they observe. What they print at the end is their
  result: listen's counts by opcode (a map of which it prints the entries, those that are not zero),
  and the number of notifications that smoke-linux's goroutine has taken when their channel is closed.
\<close>

definition observe_body ::
    "'b option \<Rightarrow> 'w Transport \<Rightarrow> 64 word \<Rightarrow> Client \<Rightarrow> 'w \<Rightarrow> ('b outcome \<times> Client \<times> 'w) option" where
  "observe_body result t now c w =
     (case Notifications t c w of
        (Some err, c, w) \<Rightarrow> Some (Fatal ''subscribe: %v'' (Some err), c, w)
      | (None, c, w) \<Rightarrow>
     case Send t (SetUTC now) c w of
        None \<Rightarrow> None
      | Some (Some err, c, w) \<Rightarrow> Some (Fatal ''set_utc: %v'' (Some err), c, w)
      | Some (None, c, w) \<Rightarrow> map_option (\<lambda>r. (Ready r, c, w)) result)"

definition listen_body ::
    "'w Transport \<Rightarrow> 64 word \<Rightarrow> listen_event list \<Rightarrow> Client \<Rightarrow> 'w \<Rightarrow> ((byte \<Rightarrow> nat) outcome \<times> Client \<times> 'w) option" where
  "listen_body t now evs = observe_body (listen_loop evs (\<lambda>_. 0)) t now"

fun rx_loop :: "Notification list \<Rightarrow> nat \<Rightarrow> nat" where
  "rx_loop [] rx = rx"
| "rx_loop (n # ns) rx = rx_loop ns (rx + 1)"

definition smoke_linux_body ::
    "'w Transport \<Rightarrow> 64 word \<Rightarrow> Notification list \<Rightarrow> Client \<Rightarrow> 'w \<Rightarrow> (nat outcome \<times> Client \<times> 'w) option" where
  "smoke_linux_body t now ns = observe_body (Some (rx_loop ns 0)) t now"

lemma rx_loop_length: "rx_loop ns rx = rx + length ns"
  by (induction ns arbitrary: rx) simp_all

subsection \<open>fixture\<close>

definition fmt_x :: "byte list \<Rightarrow> string" where
  "fmt_x bs = concat (map (\<lambda>b. [lower_digit (unat b div 16), lower_digit (unat b mod 16)]) bs)"

text \<open>The lines the program prints, without their line ends.\<close>

definition fixture_main :: "string list" where
  "fixture_main =
     (let name = ''Smart Light'';
          pass = ''400380'';
          randA = [0x01, 0x02, 0x03, 0x04, 0x05, 0x06, 0x07, 0x08];
          randB = [0x11, 0x12, 0x13, 0x14, 0x15, 0x16, 0x17, 0x18];
          gwMAC = [0x00, 0x21, 0x4D, 0x5D, 0x26, 0x7D];
          sno = [0x00, 0xB6, 0x08];
          sk = DeriveSessionKey name pass randA randB;
          nonce = CommandNonce gwMAC sno;
          cmd = OnOff 9 True
      in case Encode cmd of
           None \<Rightarrow> [''sk='' @ fmt_x sk, ''cmd_nonce='' @ fmt_x nonce]
         | Some pt \<Rightarrow>
             let pkt = Encrypt sk nonce sno pt
             in [''sk='' @ fmt_x sk, ''cmd_nonce='' @ fmt_x nonce, ''plaintext='' @ fmt_x pt,
                 ''packet='' @ fmt_x pkt])"

lemma hex_DecodeString_fmt_x: "hex_DecodeString (fmt_x bs) = Some bs"
  by (induction bs) (simp_all add: fmt_x_def hex_value_lower unat_byte_div)

text \<open>What a reader of the output can check: the packet decrypts to the plaintext.\<close>

lemma fixture_consistent:
  "\<exists>sk nonce pt pkt. fixture_main = [''sk='' @ fmt_x sk, ''cmd_nonce='' @ fmt_x nonce,
       ''plaintext='' @ fmt_x pt, ''packet='' @ fmt_x pkt] \<and>
     Decrypt sk nonce (take 2 (drop 3 pkt)) (drop 5 pkt) = Inr pt \<and> length pkt = 20"
proof -
  obtain pt where pt: "Encode (OnOff 9 True) = Some pt" "length pt = 15"
    by (simp add: Encode_def OnOff_def)
  let ?sk = "DeriveSessionKey ''Smart Light'' ''400380'' [0x01, 0x02, 0x03, 0x04, 0x05, 0x06, 0x07, 0x08]
    [0x11, 0x12, 0x13, 0x14, 0x15, 0x16, 0x17, 0x18]"
  let ?nonce = "CommandNonce [0x00, 0x21, 0x4D, 0x5D, 0x26, 0x7D] [0x00, 0xB6, 0x08]"
  from pt show ?thesis
    by (intro exI [of _ ?sk] exI [of _ ?nonce] exI [of _ pt] exI [of _ "Encrypt ?sk ?nonce [0x00, 0xB6, 0x08] pt"]
        conjI) (simp_all add: fixture_main_def Let_def Decrypt_Encrypt go_len)
qed

end
