(* ===== verification/Scan_Pick.thy ===== *)
theory Scan_Pick
  imports Scan_Steps Programs
begin

section \<open>ble/cmd: picking a node while the scan goes on\<close>

text \<open>
  The loop \<open>for r := range results\<close> of the programs beside the goroutine of the scan, on Linux:
  it takes one result after the other from the channel, leaves at the first gateway, which is
  before the scan has ended, or when the channel is closed and empty. \<open>pick_best\<close> (\<open>Programs\<close>) is the loop
  on the list of all results.
\<close>

definition pick_one :: "'a ScanResult option \<Rightarrow> 'a ScanResult \<Rightarrow> 'a ScanResult option \<times> bool" where
  "pick_one best r =
     (let best = (case best of
                    None \<Rightarrow> Some r
                  | Some b \<Rightarrow> if sint (r_RSSI r) > sint (r_RSSI b) then Some r else Some b)
      in if is_gateway r then (Some r, True) else (best, False))"

record 'w picking =
  pk_scan :: "'w scan"
  pk_best :: "linux_result option"
  pk_over :: bool

datatype pick_action = PickScan scan_action | PickTakes | PickCloses

definition pick_begin :: "'w \<Rightarrow> 'w picking" where
  "pick_begin w = \<lparr>pk_scan = scan_begin w, pk_best = None, pk_over = False\<rparr>"

inductive pick_step :: "'w Bus \<Rightarrow> ObjectPath \<Rightarrow> ScanFilter \<Rightarrow> 'w picking \<Rightarrow> pick_action \<Rightarrow> 'w picking \<Rightarrow> bool"
  for bus ap flt where
  pick_scan: "scan_step bus ap flt (pk_scan p) a s \<Longrightarrow> a \<noteq> ScanReceives \<Longrightarrow>
     pick_step bus ap flt p (PickScan a) (p\<lparr>pk_scan := s\<rparr>)"
| pick_takes: "\<not> pk_over p \<Longrightarrow> sc_out (pk_scan p) = r # rs \<Longrightarrow> pick_one (pk_best p) r = (best, brk) \<Longrightarrow>
     pick_step bus ap flt p PickTakes
       (p\<lparr>pk_scan := (pk_scan p)\<lparr>sc_out := rs, sc_received := sc_received (pk_scan p) @ [r]\<rparr>,
          pk_best := best, pk_over := brk\<rparr>)"
| pick_closes: "\<not> pk_over p \<Longrightarrow> sc_out (pk_scan p) = [] \<Longrightarrow> sc_outClosed (pk_scan p) \<Longrightarrow>
     pick_step bus ap flt p PickCloses (p\<lparr>pk_over := True\<rparr>)"

abbreviation pick_reachable :: "'w Bus \<Rightarrow> ObjectPath \<Rightarrow> ScanFilter \<Rightarrow> 'w picking \<Rightarrow> bool" where
  "pick_reachable bus ap flt \<equiv> reachable (\<lambda>p. \<exists>w. p = pick_begin w) (pick_step bus ap flt)"

subsection \<open>The loop on what has come\<close>

lemma pick_best_append:
  "pick_best best (xs @ ys) =
     (if \<exists>r \<in> set xs. is_gateway r then pick_best best xs else pick_best (pick_best best xs) ys)"
  by (induction best xs rule: pick_best.induct) (auto simp: Let_def)

lemma pick_best_one: "pick_best best [r] = fst (pick_one best r)"
  by (simp add: pick_one_def Let_def)

lemma pick_one_over: "snd (pick_one best r) = is_gateway r"
  by (simp add: pick_one_def Let_def)

definition pick_inv :: "'w Bus \<Rightarrow> ObjectPath \<Rightarrow> ScanFilter \<Rightarrow> 'w picking \<Rightarrow> bool" where
  "pick_inv bus ap flt p \<longleftrightarrow>
     scan_reachable bus ap flt (pk_scan p) \<and>
     pk_best p = pick_best None (sc_received (pk_scan p)) \<and>
     ((\<exists>r \<in> set (sc_received (pk_scan p)). is_gateway r) \<longrightarrow> pk_over p) \<and>
     (pk_over p \<longrightarrow> (\<exists>r \<in> set (sc_received (pk_scan p)). is_gateway r) \<or>
        sc_out (pk_scan p) = [] \<and> sc_pc (pk_scan p) = ScanDone)"

lemma scan_step_received:
  assumes "scan_step bus ap flt s a s'" "a \<noteq> ScanReceives"
  shows "sc_received s' = sc_received s" and "sc_pc s = ScanDone \<Longrightarrow> sc_pc s' = ScanDone \<and> sc_out s' = sc_out s"
  using assms by (cases; auto)+

interpretation pick: step_invariant "\<lambda>p. \<exists>w. p = pick_begin w" "pick_step bus ap flt" "pick_inv bus ap flt"
  for bus :: "'w Bus" and ap flt
proof unfold_locales
  fix p :: "'w picking" assume "\<exists>w. p = pick_begin w"
  then obtain w where "p = pick_begin w" by blast
  moreover have "scan_reachable bus ap flt (scan_begin w)" by (rule reach_start) blast
  ultimately show "pick_inv bus ap flt p" by (simp add: pick_inv_def pick_begin_def) (simp add: scan_begin_def)
next
  fix p p' :: "'w picking" and a assume inv: "pick_inv bus ap flt p" and step: "pick_step bus ap flt p a p'"
  have r: "scan_reachable bus ap flt (pk_scan p)" using inv by (simp add: pick_inv_def)
  from step show "pick_inv bus ap flt p'"
  proof cases
    case (pick_scan b s)
    have "scan_reachable bus ap flt s" by (rule reach_step [OF r pick_scan(3)])
    with inv pick_scan scan_step_received [OF pick_scan(3,4)] show ?thesis by (auto simp: pick_inv_def)
  next
    case (pick_takes res rs best brk)
    then have "fst (pick_one (pk_best p) res) = best" "brk = is_gateway res"
      using pick_one_over [of "pk_best p" res] by simp_all
    moreover have "scan_reachable bus ap flt (pk_scan p') "
      using reach_step [OF r scan_receives [OF pick_takes(4)]] pick_takes(2) by simp
    ultimately show ?thesis
      using inv pick_takes by (auto simp: pick_inv_def pick_best_append pick_best_one simp del: pick_best.simps)
  next
    case pick_closes
    moreover have "sc_pc (pk_scan p) = ScanDone"
      using scan.reachable_inv [OF r] pick_closes by (simp add: scan_inv_def scan_channel_def)
    ultimately show ?thesis using inv by (simp add: pick_inv_def)
  qed
qed

lemma pick_of_prefix:
  assumes "pick_inv bus ap flt p" "pk_over p"
  shows "pk_best p = pick_best None (sc_sent (pk_scan p) @ rs) \<or>
     sc_pc (pk_scan p) = ScanDone \<and> pk_best p = pick_best None (sc_sent (pk_scan p))"
proof -
  have "sc_sent (pk_scan p) = sc_received (pk_scan p) @ sc_out (pk_scan p)"
    using assms(1) scan.reachable_inv [of bus ap flt "pk_scan p"]
    by (simp add: pick_inv_def scan_inv_def scan_channel_def)
  with assms show ?thesis by (auto simp: pick_inv_def pick_best_append)
qed

text \<open>What the loop picks is what the same loop picks from all results of the signals taken, and of more signals.\<close>

lemma pick_same:
  assumes "pick_reachable bus ap flt p" "pk_over p" "\<not> sc_ctxDone (pk_scan p)"
  shows "pk_best p = pick_best None (fst (scan_goroutine bus ap flt (sc_taken (pk_scan p)) (sc_w0 (pk_scan p))))"
proof -
  let ?s = "pk_scan p"
  have inv: "pick_inv bus ap flt p" by (rule pick.reachable_inv [OF assms(1)])
  then have s: "scan_emitted bus flt ?s" "scan_state_ok bus ap flt ?s" "scan_channel ?s"
    using scan.reachable_inv [of bus ap flt ?s] by (simp_all add: pick_inv_def scan_inv_def)
  have due: "sc_sent ?s @ scan_rest flt (sc_pc ?s) = scan_due bus flt ?s"
    using s(1) assms(3) by (simp add: scan_emitted_def)
  have "pk_best p = pick_best None (scan_due bus flt ?s)"
    using pick_of_prefix [OF inv assms(2), of "scan_rest flt (sc_pc ?s)"] due by auto
  moreover have "sc_pc ?s \<noteq> ScanObjects"
  proof
    assume "sc_pc ?s = ScanObjects"
    with s(2,3) have "sc_received ?s = []" by (simp add: scan_state_ok_def scan_channel_def)
    with inv assms(2) \<open>sc_pc ?s = ScanObjects\<close> show False by (simp add: pick_inv_def)
  qed
  ultimately show ?thesis using scan_due_goroutine [OF s(2)] by simp
qed

subsection \<open>The loop ends with the scan\<close>

definition pick_own :: "'w Bus \<Rightarrow> ObjectPath \<Rightarrow> ScanFilter \<Rightarrow> 'w picking \<Rightarrow> pick_action \<Rightarrow> 'w picking \<Rightarrow> bool" where
  "pick_own bus ap flt p a p' \<longleftrightarrow>
     sc_ctxDone (pk_scan p) \<and> a \<in> {PickScan ScanMoves, PickTakes, PickCloses} \<and> pick_step bus ap flt p a p'"

definition pick_rank :: "'w Bus \<Rightarrow> 'w picking \<Rightarrow> nat" where
  "pick_rank bus p = 2 * scan_rank bus (pk_scan p) + length (sc_out (pk_scan p)) + (if pk_over p then 0 else 1)"

lemma scan_moves_out:
  assumes "scan_step bus ap flt s ScanMoves s'"
  shows "length (sc_out s') \<le> Suc (length (sc_out s))"
  using assms by cases auto

lemma pick_own_rank:
  assumes "pick_own bus ap flt p a p'"
  shows "pick_rank bus p' < pick_rank bus p"
proof -
  have ctx: "sc_ctxDone (pk_scan p)" and step: "pick_step bus ap flt p a p'" using assms unfolding pick_own_def by blast+
  from step show ?thesis
  proof cases
    case (pick_scan b s)
    with assms have b: "scan_step bus ap flt (pk_scan p) ScanMoves s" by (auto simp: pick_own_def)
    with ctx have "scan_own bus ap flt (pk_scan p) ScanMoves s" by (simp add: scan_own_def)
    from scan_end.rank_step [OF this] scan_moves_out [OF b] pick_scan(2) show ?thesis by (simp add: pick_rank_def)
  qed (simp_all add: pick_rank_def scan_rank_def)
qed

lemma pick_context_stays:
  assumes "pick_step bus ap flt p a p'" "sc_ctxDone (pk_scan p)"
  shows "sc_ctxDone (pk_scan p')"
  using assms(1)
proof cases
  case (pick_scan b s)
  from pick_scan(3) assms(2) have "sc_ctxDone s" by cases simp_all
  with pick_scan show ?thesis by simp
qed (use assms(2) in simp_all)

lemma pick_progress:
  assumes "pick_inv bus ap flt p" "sc_ctxDone (pk_scan p)" "\<not> (pk_over p \<and> sc_pc (pk_scan p) = ScanDone)"
  shows "\<exists>a p'. pick_own bus ap flt p a p'"
proof (cases "sc_pc (pk_scan p) = ScanDone")
  case False
  with assms(2) scan_end.progress [of "pk_scan p" bus ap flt] obtain s where
    "scan_step bus ap flt (pk_scan p) ScanMoves s" by (auto simp: scan_own_def)
  from pick_scan [OF this] assms(2) show ?thesis by (auto simp: pick_own_def)
next
  case True
  with assms(3) have open_loop: "\<not> pk_over p" by simp
  have closed: "sc_outClosed (pk_scan p)"
    using assms(1) True scan.reachable_inv [of bus ap flt "pk_scan p"]
    by (simp add: pick_inv_def scan_inv_def scan_channel_def)
  show ?thesis
  proof (cases "sc_out (pk_scan p)")
    case Nil
    with pick_closes [of p bus ap flt] open_loop closed assms(2) show ?thesis by (auto simp: pick_own_def)
  next
    case (Cons r rs)
    obtain best brk where "pick_one (pk_best p) r = (best, brk)" by fastforce
    with pick_takes [of p r rs best brk bus ap flt] open_loop Cons assms(2) show ?thesis
      unfolding pick_own_def by blast
  qed
qed

interpretation pick_end: step_terminates "pick_own bus ap flt" "pick_rank bus" "\<lambda>p. pick_inv bus ap flt p \<and> sc_ctxDone (pk_scan p)"
  "\<lambda>p. pk_over p \<and> sc_pc (pk_scan p) = ScanDone"
  for bus :: "'w Bus" and ap flt
proof unfold_locales
  fix p p' :: "'w picking" and a assume own: "pick_own bus ap flt p a p'"
  then show "pick_rank bus p' < pick_rank bus p" by (rule pick_own_rank)
  have step: "pick_step bus ap flt p a p'" using own unfolding pick_own_def by blast
  assume "pick_inv bus ap flt p \<and> sc_ctxDone (pk_scan p)"
  with pick_context_stays [OF step] pick.inv_step [OF _ step]
  show "pick_inv bus ap flt p' \<and> sc_ctxDone (pk_scan p')" by blast
qed (use pick_progress in blast)

subsection \<open>Every scan has a picking run\<close>

text \<open>
  A run of the scan with a caller who takes some of the results is one with the loop as the caller, up
  to the point where the loop is left.
\<close>

lemma pick_lifts:
  assumes "scan_reachable bus ap flt s"
  shows "\<exists>p. pick_reachable bus ap flt p \<and> (sc_ctxDone (pk_scan p) \<longrightarrow> sc_ctxDone s) \<and>
     (if pk_over p then prefix (sc_received (pk_scan p)) (sc_received s) \<and> (\<exists>r \<in> set (sc_received (pk_scan p)). is_gateway r)
      else pk_scan p = s)"
  using assms
proof (induction rule: reachable.induct)
  case (reach_start s)
  then obtain w where "s = scan_begin w" by blast
  then have "pick_reachable bus ap flt (pick_begin w)" "pk_scan (pick_begin w) = s" "\<not> pk_over (pick_begin w)"
    by (auto intro: reachable.reach_start simp: pick_begin_def)
  then show ?case by (intro exI [of _ "pick_begin w"]) simp
next
  case (reach_step s a s')
  then obtain p where p: "pick_reachable bus ap flt p" "sc_ctxDone (pk_scan p) \<longrightarrow> sc_ctxDone s"
    "if pk_over p then prefix (sc_received (pk_scan p)) (sc_received s) \<and> (\<exists>r \<in> set (sc_received (pk_scan p)). is_gateway r)
     else pk_scan p = s" by blast
  have mono: "prefix (sc_received s) (sc_received s')" "sc_ctxDone s \<longrightarrow> sc_ctxDone s'"
    using reach_step.hyps(2) by (cases; simp)+
  show ?case
  proof (cases "pk_over p")
    case True
    with p mono show ?thesis by (intro exI [of _ p]) (auto intro: prefix_order.trans)
  next
    case False
    with p(3) have s: "pk_scan p = s" by simp
    show ?thesis
    proof (cases "a = ScanReceives")
      case False
      with pick_scan [of bus ap flt p a s'] reach_step.hyps(2) s
      have "pick_step bus ap flt p (PickScan a) (p\<lparr>pk_scan := s'\<rparr>)" by simp
      from reachable.reach_step [OF p(1) this] \<open>\<not> pk_over p\<close> show ?thesis
        by (intro exI [of _ "p\<lparr>pk_scan := s'\<rparr>"]) simp
    next
      case True
      with reach_step.hyps(2) obtain r rs where
        r: "sc_out s = r # rs" "s' = s\<lparr>sc_out := rs, sc_received := sc_received s @ [r]\<rparr>" by (auto elim: scan_stepE)
      obtain best brk where one: "pick_one (pk_best p) r = (best, brk)" by fastforce
      let ?p = "p\<lparr>pk_scan := s', pk_best := best, pk_over := brk\<rparr>"
      have "pick_step bus ap flt p PickTakes ?p"
        using pick_takes [of p r rs best brk bus ap flt] \<open>\<not> pk_over p\<close> r one s by simp
      then have "pick_reachable bus ap flt ?p" by (rule reachable.reach_step [OF p(1)])
      moreover have "brk = is_gateway r" using pick_one_over [of "pk_best p" r] one by simp
      ultimately show ?thesis by (intro exI [of _ ?p]) (simp add: r(2))
    qed
  qed
qed

lemma pick_complete:
  "\<exists>p. pick_reachable bus ap flt p \<and> pk_over p \<and> \<not> sc_ctxDone (pk_scan p) \<and>
     pk_best p = pick_best None (fst (scan_goroutine bus ap flt sigs w))"
proof -
  obtain s where s: "scan_reachable bus ap flt s" "sc_pc s = ScanDone" "\<not> sc_ctxDone s" "sc_out s = []"
    "sc_received s = fst (scan_goroutine bus ap flt sigs w)"
    using scan_complete [of bus ap flt sigs w] by (auto simp: prod_eq_iff)
  from pick_lifts [OF s(1)] s(3) obtain p where p: "pick_reachable bus ap flt p" "\<not> sc_ctxDone (pk_scan p)"
    "if pk_over p then prefix (sc_received (pk_scan p)) (sc_received s) \<and> (\<exists>r \<in> set (sc_received (pk_scan p)). is_gateway r)
     else pk_scan p = s" by blast
  have inv: "pick_inv bus ap flt p" by (rule pick.reachable_inv [OF p(1)])
  show ?thesis
  proof (cases "pk_over p")
    case True
    with p(3) obtain rs where rs: "sc_received s = sc_received (pk_scan p) @ rs"
      "\<exists>r \<in> set (sc_received (pk_scan p)). is_gateway r" by (auto simp: prefix_def)
    then have "pk_best p = pick_best None (sc_received s)"
      using inv unfolding pick_inv_def rs(1) pick_best_append by simp
    with p True s(5) show ?thesis by auto
  next
    case False
    with p(3) have ps: "pk_scan p = s" by simp
    moreover have "sc_outClosed s"
      using scan.reachable_inv [OF s(1)] s(2) by (simp add: scan_inv_def scan_channel_def)
    ultimately have "pick_step bus ap flt p PickCloses (p\<lparr>pk_over := True\<rparr>)"
      using False s(4) by (intro pick_closes) simp_all
    from reach_step [OF p(1) this] inv ps s(3,5) show ?thesis
      by (intro exI [of _ "p\<lparr>pk_over := True\<rparr>"]) (simp add: pick_inv_def)
  qed
qed

end
