(* ===== verification/Mains.thy ===== *)
theory Mains
  imports Programs Links Scan_Steps
begin

section \<open>ble/cmd: the programs from start to end\<close>

text \<open>
  Each program sets up its session, runs its body and returns from \<open>main\<close>, which runs the deferred
  calls: the notifications' context is cancelled, the client closed (its heartbeat is in
  \<open>Client_Steps\<close>) and the connection closed. \<open>log.Fatalf\<close> runs none of them. \<open>None\<close> is a program
  that panics or has not ended.
\<close>

text \<open>
  A body on a connection that lacks a characteristic: every body first subscribes, as a client that
  is logged in and has no subscription, and then sends.
\<close>

definition on_connection ::
    "'w Connection \<Rightarrow> ('w Transport \<Rightarrow> Client \<Rightarrow> 'w \<Rightarrow> ('b outcome \<times> Client \<times> 'w) option) \<Rightarrow>
     Client \<Rightarrow> 'w \<Rightarrow> ('b outcome \<times> Client \<times> 'w) option" where
  "on_connection conn body c w =
     (if charNotify conn = None then None
      else if charCmd conn = None then
        (case Notifications (NewTransport conn) c w of
           (Some err, c, w) \<Rightarrow> Some (Fatal ''subscribe: %v'' (Some err), c, w)
         | (None, _) \<Rightarrow> None)
      else body (NewTransport conn) c w)"

definition run_program ::
    "bool \<Rightarrow> string \<Rightarrow> ('w \<Rightarrow> (go_error + ('w, 'a) Adapter) \<times> 'w) \<Rightarrow> go_error + byte list \<Rightarrow> go_error + byte list \<Rightarrow>
     string \<Rightarrow> string \<Rightarrow> ('w Transport \<Rightarrow> Client \<Rightarrow> 'w \<Rightarrow> ('b outcome \<times> Client \<times> 'w) option) \<Rightarrow>
     'w \<Rightarrow> ('b outcome \<times> 'w) option" where
  "run_program stops label newAdapter rndA rndSalt meshName meshPassword body w =
     (if meshPassword = [] then
        Some (Fatal ''mesh password required via -password or PIGSY_MESH_PASSWORD'' None, w)
      else
        case newAdapter w of
          (Inl err, w) \<Rightarrow> Some (Fatal ''adapter init: %v'' (Some err), w)
        | (Inr adapter, w) \<Rightarrow>
        case start_session stops label adapter rndA rndSalt meshName meshPassword w of
          None \<Rightarrow> None
        | Some (Fatal msg err, w) \<Rightarrow> Some (Fatal msg err, w)
        | Some (Ready (best, conn, client), w) \<Rightarrow>
        case on_connection conn body client w of
          None \<Rightarrow> None
        | Some (Fatal msg err, client, w) \<Rightarrow> Some (Fatal msg err, w)
        | Some (Ready x, client, w) \<Rightarrow> Some (Ready x, snd (snd (Connection_Close conn w))))"

definition listen_main ::
    "('w \<Rightarrow> (go_error + ('w, 'a) Adapter) \<times> 'w) \<Rightarrow> go_error + byte list \<Rightarrow> go_error + byte list \<Rightarrow>
     string \<Rightarrow> string \<Rightarrow> 64 word \<Rightarrow> listen_event list \<Rightarrow> 'w \<Rightarrow> ((byte \<Rightarrow> nat) outcome \<times> 'w) option" where
  "listen_main newAdapter rndA rndSalt meshName meshPassword now evs =
     run_program False ''scan: %v'' newAdapter rndA rndSalt meshName meshPassword (\<lambda>t. listen_body t now evs)"

definition smoke_main ::
    "('w \<Rightarrow> (go_error + ('w, 'a) Adapter) \<times> 'w) \<Rightarrow> go_error + byte list \<Rightarrow> go_error + byte list \<Rightarrow>
     string \<Rightarrow> string \<Rightarrow> 64 word \<Rightarrow> Notification list \<Rightarrow> 'w \<Rightarrow> (statuses outcome \<times> 'w) option" where
  "smoke_main newAdapter rndA rndSalt meshName meshPassword now ns =
     run_program False ''scan start: %v'' newAdapter rndA rndSalt meshName meshPassword (\<lambda>t. smoke_body t now ns)"

definition smoke_linux_main ::
    "('w \<Rightarrow> (go_error + ('w, 'a) Adapter) \<times> 'w) \<Rightarrow> go_error + byte list \<Rightarrow> go_error + byte list \<Rightarrow>
     string \<Rightarrow> string \<Rightarrow> 64 word \<Rightarrow> Notification list \<Rightarrow> 'w \<Rightarrow> (nat outcome \<times> 'w) option" where
  "smoke_linux_main newAdapter rndA rndSalt meshName meshPassword now ns =
     run_program True ''scan start: %v'' newAdapter rndA rndSalt meshName meshPassword (\<lambda>t. smoke_linux_body t now ns)"

subsection \<open>The links a program leaves\<close>

text \<open>
  The messages of the errors before and at connecting. A program that returns, or ends with one of
  these, has no link to leave.
\<close>

definition before_connect :: "string set" where
  "before_connect =
     {''mesh password required via -password or PIGSY_MESH_PASSWORD'', ''adapter init: %v'', ''scan: %v'',
      ''scan start: %v'', ''no matching mesh node found'', ''connect: %v''}"

fun no_link_left :: "'b outcome \<Rightarrow> bool" where
  "no_link_left (Fatal msg err) \<longleftrightarrow> msg \<in> before_connect"
| "no_link_left (Ready x) \<longleftrightarrow> True"

text \<open>A body does to the links what its transport does, and its errors have messages of their own.\<close>

definition body_ok :: "('w \<Rightarrow> 'm) \<Rightarrow> ('w Transport \<Rightarrow> Client \<Rightarrow> 'w \<Rightarrow> ('b outcome \<times> Client \<times> 'w) option) \<Rightarrow> bool" where
  "body_ok m body \<longleftrightarrow>
     (\<forall>t c w r c' w'. transport_leaves m t \<longrightarrow> body t c w = Some (r, c', w') \<longrightarrow>
        m w' = m w \<and> (\<forall>msg err. r = Fatal msg err \<longrightarrow> msg \<notin> before_connect))"

lemma send_list_leaves:
  assumes "transport_leaves m t"
  shows "send_list t cmds c w = Some (r, c', w') \<Longrightarrow> m w' = m w"
proof (induction cmds arbitrary: c w)
  case (Cons x cmds)
  then show ?case
    by (cases x) (auto split: option.splits prod.splits dest!: Send_leaves [OF assms])
qed simp

lemma send_list_messages:
  "send_list t cmds c w = Some (Fatal msg err, c', w') \<Longrightarrow> msg \<in> fst ` set cmds"
  by (induction t cmds c w rule: send_list.induct) (auto split: option.splits prod.splits)

lemma observe_body_ok: "body_ok m (\<lambda>t. observe_body result t now)"
  unfolding body_ok_def
proof (intro allI impI)
  fix t c w r c' w' assume t: "transport_leaves m t" and b: "observe_body result t now c w = Some (r, c', w')"
  then show "m w' = m w \<and> (\<forall>msg err. r = Fatal msg err \<longrightarrow> msg \<notin> before_connect)"
    by (auto simp: observe_body_def before_connect_def split: option.splits prod.splits
        dest!: Send_leaves [OF t] Notifications_leaves [OF t])
qed

text \<open>The three parts of smoke, each with its error.\<close>

lemma smoke_body_parts:
  assumes "smoke_body t now ns c w = Some (r, c', w')"
  obtains (subscribe) err where "Notifications t c w = (Some err, c', w')" "r = Fatal ''subscribe: %v'' (Some err)"
  | (opened) c1 w1 r1 where "Notifications t c w = (None, c1, w1)"
      "send_list t (smoke_opening now) c1 w1 = Some (r1, c', w')"
      "\<And>msg err. r = Fatal msg err \<Longrightarrow> r1 = Fatal msg err"
  | (toggle) c1 w1 u c2 w2 b r2 where "Notifications t c w = (None, c1, w1)"
      "send_list t (smoke_opening now) c1 w1 = Some (Ready u, c2, w2)"
      "send_list t (smoke_toggle b) c2 w2 = Some (r2, c', w')" "\<And>msg err. r = Fatal msg err \<Longrightarrow> r2 = Fatal msg err"
proof -
  obtain e c1 w1 where n: "Notifications t c w = (e, c1, w1)" by (metis prod.exhaust)
  show thesis
  proof (cases e)
    case (Some err)
    with assms n show thesis by (intro subscribe [of err]) (simp_all add: smoke_body_def)
  next
    case None
    with assms n obtain r1 c2 w2 where o': "send_list t (smoke_opening now) c1 w1 = Some (r1, c2, w2)"
      by (auto simp: smoke_body_def split: option.splits)
    show thesis
    proof (cases r1)
      case (Fatal msg err)
      with assms n None o' show thesis by (intro opened [of c1 w1 r1]) (simp_all add: smoke_body_def)
    next
      case (Ready u)
      show thesis
      proof (cases "map_of (collect_all ns) mudroomAddr")
        case None
        with assms n \<open>e = None\<close> o' Ready show thesis
          by (intro opened [of c1 w1 r1]) (auto simp: smoke_body_def Let_def)
      next
        case (Some ds)
        with assms n None o' Ready obtain r2 c3 w3 where s: "send_list t (smoke_toggle (On ds)) c2 w2 = Some (r2, c3, w3)"
          by (auto simp: smoke_body_def Let_def split: option.splits)
        with assms n None o' Ready Some have "c3 = c'" "w3 = w'" "\<And>msg err. r = Fatal msg err \<Longrightarrow> r2 = Fatal msg err"
          by (auto simp: smoke_body_def Let_def split: outcome.splits)
        with n None o' Ready s show thesis by (intro toggle [of c1 w1 u c2 w2 "On ds" r2]) simp_all
      qed
    qed
  qed
qed

lemma smoke_messages:
  "msg \<in> fst ` set (smoke_opening now) \<or> msg \<in> fst ` set (smoke_toggle b) \<Longrightarrow> msg \<notin> before_connect"
  by (auto simp: smoke_opening_def smoke_toggle_def before_connect_def)

lemma smoke_body_ok: "body_ok m (\<lambda>t. smoke_body t now ns)"
  unfolding body_ok_def
proof (intro allI impI)
  fix t c w r c' w' assume t: "transport_leaves m t" and b: "smoke_body t now ns c w = Some (r, c', w')"
  note leaves = Notifications_leaves [OF t] send_list_leaves [OF t]
  from b show "m w' = m w \<and> (\<forall>msg err. r = Fatal msg err \<longrightarrow> msg \<notin> before_connect)"
  proof (cases rule: smoke_body_parts)
    case (subscribe err)
    with leaves(1) [OF subscribe(1)] show ?thesis by (simp add: before_connect_def)
  next
    case (opened c1 w1 r1)
    have "msg \<notin> before_connect" if "r = Fatal msg err" for msg err
      using opened(2) opened(3) [OF that] by (intro smoke_messages [of msg now True]) (auto dest: send_list_messages)
    with leaves(1) [OF opened(1)] leaves(2) [OF opened(2)] show ?thesis by simp
  next
    case (toggle c1 w1 u c2 w2 x r2)
    have "msg \<notin> before_connect" if "r = Fatal msg err" for msg err
      using toggle(3) toggle(4) [OF that] by (intro smoke_messages [of msg now x]) (auto dest: send_list_messages)
    with leaves(1) [OF toggle(1)] leaves(2) [OF toggle(2)] leaves(2) [OF toggle(3)] show ?thesis by simp
  qed
qed

text \<open>Scanning changes no link.\<close>

lemma linux_scan_leaves:
  assumes laws: "link_laws bus sys links" and "linux_scan bus ap w = (r, w')"
  shows "links w' = links w"
  using assms(2)
  by (auto simp: linux_scan_def scan_rules_def link_laws_states [OF laws] split: option.splits prod.splits
      dest!: link_calls(6) [OF laws] link_calls(9) [OF laws])

lemma scan_goroutine_leaves:
  assumes laws: "link_laws bus sys links" and "scan_goroutine bus ap flt sigs w = (rs, w')"
  shows "links w' = links w"
proof -
  note l = link_laws_leaves [OF laws, unfolded leaves_def, rule_format]
  have "links (snd (scan_goroutine bus ap flt sigs w)) = links w"
    by (simp add: scan_goroutine_parts Let_def scan_cleanup_def scan_rules_def link_laws_states [OF laws] l
        getManagedObjects_state)
  with assms(2) show ?thesis by simp
qed

lemma linux_adapter_leaves:
  assumes laws: "link_laws bus sys links"
  shows "Adapter_Scan (linux_adapter bus sys ap sigs evs) flt w = (r, w') \<Longrightarrow> links w' = links w"
    and "links (snd (Adapter_StopScan (linux_adapter bus sys ap sigs evs) w)) = links w"
proof -
  show "links w' = links w" if "Adapter_Scan (linux_adapter bus sys ap sigs evs) flt w = (r, w')"
    using that
    by (auto simp: adapter_methods linux_adapter_def split: option.splits prod.splits
        dest!: linux_scan_leaves [OF laws] scan_goroutine_leaves [OF laws])
  show "links (snd (Adapter_StopScan (linux_adapter bus sys ap sigs evs) w)) = links w"
    using link_laws_leaves(8) [OF laws] by (simp add: adapter_methods linux_adapter_def linux_stopScan_def leaves_def)
qed

text \<open>What a session leaves: its link, or a link only when the login failed.\<close>

lemma session_cases:
  fixes adapter :: "('w, 'a) Adapter"
  assumes "start_session stops label adapter rndA rndSalt name pass w = Some (r, w')"
  obtains (early) v1 where "w' = v1 \<or> stops \<and> w' = snd (Adapter_StopScan adapter v1)"
      "\<exists>flt r1. Adapter_Scan adapter flt w = (r1, v1)" "\<exists>msg err. r = Fatal msg err \<and> msg \<in> {label, ''no matching mesh node found''}"
  | (refused) v1 v2 and best :: "'a ScanResult" and err where "\<exists>flt r1. Adapter_Scan adapter flt w = (r1, v1)"
      "v2 = v1 \<or> v2 = snd (Adapter_StopScan adapter v1)"
      "Adapter_Connect adapter (r_Advertisement best) (r_Address best) v2 = Some (Inl err, w')"
      "r = Fatal ''connect: %v'' (Some err)"
  | (connected) v1 v2 v3 and best :: "'a ScanResult" and conn e client where "\<exists>flt r1. Adapter_Scan adapter flt w = (r1, v1)"
      "v2 = v1 \<or> v2 = snd (Adapter_StopScan adapter v1)"
      "Adapter_Connect adapter (r_Advertisement best) (r_Address best) v2 = Some (Inr conn, v3)"
      "Login (NewTransport conn) rndA rndSalt name pass (NewClient (conn_gwMAC conn) []) v3 = (e, client, w')"
      "r = (case e of None \<Rightarrow> Ready (best, conn, client) | Some err \<Rightarrow> Fatal ''login: %v'' (Some err))"
proof -
  let ?flt = "\<lparr>f_MeshName = name, f_NetworkID = 0, f_GatewayOnly = False\<rparr>"
  obtain r1 v1 where s: "Adapter_Scan adapter ?flt w = (r1, v1)" by fastforce
  let ?v2 = "if stops then snd (Adapter_StopScan adapter v1) else v1"
  show thesis
  proof (cases "\<exists>results best. r1 = Inr results \<and> pick_best None results = Some best")
    case False
    with assms s show thesis
      by (intro early [of v1]) (auto simp: start_session_def split: sum.splits option.splits)
  next
    case True
    then obtain results best where b: "r1 = Inr results" "pick_best None results = Some best" by blast
    from assms s b obtain rc v3 where c: "Adapter_Connect adapter (r_Advertisement best) (r_Address best) ?v2 = Some (rc, v3)"
      by (auto simp: start_session_def Let_def split: option.splits)
    show thesis
    proof (cases rc)
      case (Inl err)
      with assms s b c show thesis by (intro refused [of v1 ?v2 best err]) (auto simp: start_session_def Let_def)
    next
      case (Inr conn)
      obtain e client w3 where "Login (NewTransport conn) rndA rndSalt name pass (NewClient (conn_gwMAC conn) []) v3 =
          (e, client, w3)" by (metis prod.exhaust)
      with assms s b c Inr show thesis
        by (intro connected [of v1 ?v2 best conn v3 e client])
          (auto simp: start_session_def Let_def NewTransport_def Transport_GatewayMAC_def split: if_splits option.splits)
    qed
  qed
qed

text \<open>A session is one link that only closing its connection removes; an error before it is none.\<close>

lemma session_links:
  assumes laws: "link_laws bus sys links" and disc: "\<And>p v. fst (DeviceDisconnect bus p v) = None"
    and ad: "adapter = linux_adapter bus sys ap sigs evs" and label: "label \<in> before_connect"
    and s: "start_session stops label adapter rndA rndSalt name pass w = Some (r, w')" and none: "links w = {}"
  shows "case r of
      Fatal msg err \<Rightarrow> links w' = {} \<longleftrightarrow> msg \<in> before_connect
    | Ready (best, conn, client) \<Rightarrow>
        \<exists>path. links w' = {path} \<and> conn_closer conn = FlagCloser (DeviceDisconnect bus path) \<and>
          \<not> conn_closed conn \<and> transport_leaves links (NewTransport conn) \<and> complete conn"
proof -
  note leaves = linux_adapter_leaves [OF laws, of ap sigs evs, folded ad]
  from s show ?thesis
  proof (cases rule: session_cases)
    case (early v1)
    then have "links w' = {}" using leaves none by auto
    with early(3) label show ?thesis by (auto simp: before_connect_def)
  next
    case (refused v1 v2 best err)
    obtain path mac where p: "r_Address best = (path, mac)" by (cases "r_Address best")
    from refused(1,2) have "links v2 = {}" using leaves none by auto
    moreover from refused(3) p ad have
      "linux_connect bus sys (r_Advertisement best) (LinuxAddr path mac :: unit Addr) evs v2 = Some (Inl err, w')"
      by (simp add: adapter_methods linux_adapter_def)
    from linux_connect_fails [OF laws disc this] have "links w' \<subseteq> links v2" .
    ultimately show ?thesis using refused(4) by (simp add: before_connect_def)
  next
    case (connected v1 v2 v3 best conn e client)
    obtain path mac where p: "r_Address best = (path, mac)" by (cases "r_Address best")
    from connected(1,2) have v2: "links v2 = {}" using leaves none by auto
    from connected(3) p ad have
      c: "linux_connect bus sys (r_Advertisement best) (LinuxAddr path mac :: unit Addr) evs v2 = Some (Inr conn, v3)"
      by (simp add: adapter_methods linux_adapter_def)
    note link = linux_connect_links [OF laws c]
    from Login_leaves [OF link(4) connected(4)] link(1) v2 have "links w' = {path}" by simp
    with connected(5) link linux_connect_ok [OF c] show ?thesis by (cases e) (auto simp: before_connect_def)
  qed
qed

lemma run_program_links:
  assumes laws: "link_laws bus sys links" and disc: "\<And>p v. fst (DeviceDisconnect bus p v) = None"
    and body: "body_ok links body" and label: "label \<in> before_connect"
    and new: "\<And>v r v'. newAdapter v = (r, v') \<Longrightarrow> links v' = links v \<and>
      (\<forall>a. r = Inr a \<longrightarrow> (\<exists>ap. a = linux_adapter bus sys ap sigs evs))"
    and run: "run_program stops label newAdapter rndA rndSalt name pass body w = Some (r, w')" and none: "links w = {}"
  shows "links w' = {} \<longleftrightarrow> no_link_left r"
proof (cases "pass = [] \<or> (\<exists>err. fst (newAdapter w) = Inl err)")
  case True
  with run none new [of w] show ?thesis by (cases "newAdapter w") (auto simp: run_program_def before_connect_def split: if_splits)
next
  case False
  then obtain adapter w0 where a: "newAdapter w = (Inr adapter, w0)" "pass \<noteq> []"
    by (cases "newAdapter w"; cases "fst (newAdapter w)") auto
  from new [OF a(1)] none obtain ap where w0: "links w0 = {}" and ad: "adapter = linux_adapter bus sys ap sigs evs" by auto
  from run a obtain rs ws where s: "start_session stops label adapter rndA rndSalt name pass w0 = Some (rs, ws)"
    by (auto simp: run_program_def split: option.splits)
  note links = session_links [OF laws disc ad label s w0]
  show ?thesis
  proof (cases rs)
    case (Fatal msg err)
    with run a s links show ?thesis by (auto simp: run_program_def)
  next
    case (Ready session)
    obtain best conn client where rs: "rs = Ready (best, conn, client)" using Ready by (cases session) auto
    from links rs obtain path where ws: "links ws = {path}" and close: "conn_closer conn = FlagCloser (DeviceDisconnect bus path)"
      "\<not> conn_closed conn" and leaves: "transport_leaves links (NewTransport conn)" and complete: "complete conn" by auto
    from run a s complete rs obtain rb cb wb where b: "body (NewTransport conn) client ws = Some (rb, cb, wb)"
      by (auto simp: run_program_def on_connection_def complete_def split: option.splits)
    with body leaves ws have wb: "links wb = {path}" "\<And>msg err. rb = Fatal msg err \<Longrightarrow> msg \<notin> before_connect"
      unfolding body_ok_def by blast+
    from run a s complete rs b have "(r, w') = (case rb of Fatal msg err \<Rightarrow> (Fatal msg err, wb)
        | Ready x \<Rightarrow> (Ready x, snd (snd (Connection_Close conn wb))))"
      by (cases rb) (auto simp: run_program_def on_connection_def complete_def)
    with wb Close_link [OF laws disc close, of wb] show ?thesis by (cases rb) auto
  qed
qed

lemma linux_newAdapter_leaves:
  assumes laws: "link_laws bus sys links"
    and bus: "\<And>v r v'. SystemBus v = (r, v') \<Longrightarrow> links v' = links v \<and> (\<forall>b. r = Inr b \<longrightarrow> b = bus)"
    and "linux_newAdapter SystemBus sys sigs evs v = (r, v')"
  shows "links v' = links v \<and> (\<forall>a. r = Inr a \<longrightarrow> (\<exists>ap. a = linux_adapter bus sys ap sigs evs))"
proof -
  obtain rb v1 where b: "SystemBus v = (rb, v1)" by fastforce
  note l1 = bus [OF b]
  show ?thesis
  proof (cases rb)
    case (Inl err)
    with assms(3) b l1 show ?thesis by (auto simp: linux_newAdapter_def linux_NewAdapter_def)
  next
    case (Inr bus')
    with l1 have bus': "bus' = bus" by simp
    obtain rf v2 where f: "findAdapter bus v1 = (rf, v2)" by fastforce
    have "snd (findAdapter bus v1) = snd (getManagedObjects bus v1)"
      by (simp add: findAdapter_def split: prod.split sum.split)
    with f getManagedObjects_leaves [OF laws] have l2: "links v2 = links v1" by (simp add: leaves_def)
    show ?thesis
    proof (cases rf)
      case (Inl err)
      with assms(3) b Inr bus' f have "r = Inl err" "v' = v2"
        by (simp_all add: linux_newAdapter_def linux_NewAdapter_def)
      with l1 l2 show ?thesis by simp
    next
      case (Inr path)
      let ?v3 = "snd (SetProperty bus path bluezAdapterIface ''Powered'' (VBool True) v2)"
      from Inr assms(3) b \<open>rb = Inr bus'\<close> bus' f have "r = Inr (linux_adapter bus sys path sigs evs)" "v' = ?v3"
        by (simp_all add: linux_newAdapter_def linux_NewAdapter_def)
      moreover have "links ?v3 = links v2" using link_laws_leaves(4) [OF laws] unfolding leaves_def by blast
      ultimately show ?thesis using l1 l2 by auto
    qed
  qed
qed

text \<open>What a program prints at its end is what its body came to.\<close>

lemma run_program_Ready:
  assumes "run_program stops label newAdapter rndA rndSalt name pass body w = Some (Ready x, w')"
  obtains t c v c' v' where "body t c v = Some (Ready x, c', v')"
  using assms
  by (auto simp: run_program_def on_connection_def split: if_splits option.splits sum.splits prod.splits outcome.splits)

lemma listen_main_Ready:
  fixes w :: 'w
  assumes "listen_main newAdapter rndA rndSalt name pass now evs w = Some (Ready counts, w')"
  shows "counts op = length (filter (\<lambda>n. NOpcode n = op) (listened evs))"
proof -
  from assms obtain t c c' and v v' :: 'w where "listen_body t now evs c v = Some (Ready counts, c', v')"
    unfolding listen_main_def by (rule run_program_Ready)
  then have "listen_loop evs (\<lambda>_. 0) = Some counts"
    by (auto simp: listen_body_def observe_body_def split: option.splits prod.splits)
  from listen_loop_counts [OF this] show ?thesis by simp
qed

lemma smoke_linux_main_Ready:
  fixes w :: 'w
  assumes "smoke_linux_main newAdapter rndA rndSalt name pass now ns w = Some (Ready rx, w')"
  shows "rx = length ns"
proof -
  from assms obtain t c c' and v v' :: 'w where "smoke_linux_body t now ns c v = Some (Ready rx, c', v')"
    unfolding smoke_linux_main_def by (rule run_program_Ready)
  then show ?thesis
    by (auto simp: smoke_linux_body_def observe_body_def rx_loop_length split: option.splits prod.splits)
qed

subsection \<open>An example: a login that fails\<close>

text \<open>A bus whose state is the set of links, with one device; its pairing characteristic answers nothing useful.\<close>

definition linked_bus :: "ObjectPath set Bus" where
  "linked_bus =
     \<lparr>WriteValue = (\<lambda>_ _ _ w. (None, w)), ReadValue = (\<lambda>_ w. (Inr [], w)),
      GetProperty = (\<lambda>_ _ _ w. (Inr (VBool True), w)), SetProperty = (\<lambda>_ _ _ _ w. (None, w)),
      GetManagedObjects = (\<lambda>w. (Inr ((''/a'', Map.empty(bluezAdapterIface \<mapsto> Map.empty)) # example_objects), w)),
      DeviceConnect = (\<lambda>p w. (None, insert p w)), DeviceDisconnect = (\<lambda>p w. (None, w - {p})),
      SetDiscoveryFilter = (\<lambda>_ _ _ w. (None, w)), StartDiscovery = (\<lambda>_ w. (None, w)),
      StopDiscovery = (\<lambda>_ w. (None, w)), AddMatch = (\<lambda>r w. (None, w)),
      RemoveMatch = (\<lambda>r w. (None, w)), AddSignal = (\<lambda>w. w), RemoveSignal = (\<lambda>w. w)\<rparr>"

definition linked_sys :: "ObjectPath set Sys" where
  "linked_sys =
     \<lparr>sys_Socket = (\<lambda>w. (Inr 3, w)), sys_SetFilter = (\<lambda>_ _ w. (None, w)),
      sys_Bind = (\<lambda>_ w. (None, w)), sys_Close = (\<lambda>_ w. w)\<rparr>"

lemma linked_bus_laws: "link_laws linked_bus linked_sys (\<lambda>w. w)"
  by (simp add: link_laws_def leaves_def linked_bus_def linked_sys_def)

lemma linked_disconnect: "fst (DeviceDisconnect linked_bus p w) = None"
  by (simp add: linked_bus_def)

lemma linked_login_fails:
  "\<exists>err w'. listen_main (linux_newAdapter (\<lambda>w. (Inr linked_bus, w)) linked_sys
       [InterfacesAdded ''/d'' (Map.empty(bluezDeviceIface \<mapsto> example_device))] [])
     (Inr (replicate 8 5)) (Inr [3, 4]) ''n'' ''p'' now evs {} = Some (Fatal ''login: %v'' err, w')"
proof -
  let ?sigs = "[InterfacesAdded ''/d'' (Map.empty(bluezDeviceIface \<mapsto> example_device))]"
  let ?ad = "linux_adapter linked_bus linked_sys ''/a'' ?sigs []"
  have new: "linux_newAdapter (\<lambda>w. (Inr linked_bus, w)) linked_sys ?sigs [] {} = (Inr ?ad, {})"
    by (simp add: linux_newAdapter_def linux_NewAdapter_def findAdapter_def getManagedObjects_def linked_bus_def)
  have "linux_scan linked_bus ''/a'' {} = (None, {})" by (simp add: linux_scan_def scan_rules_def linked_bus_def)
  then obtain r w1 where scan: "Adapter_Scan ?ad \<lparr>f_MeshName = ''n'', f_NetworkID = 0, f_GatewayOnly = False\<rparr> {} =
      (Inr [r], w1)" "fst (r_Address r) = ''/d''"
    using bus_scan [of linked_bus "''/a''" "{}" "{}" _ "{}" linked_sys "[]"]
    by (force simp: getManagedObjects_def linked_bus_def example_objects_def example_char_def go_const)
  obtain mac where mac: "r_Address r = (''/d'', mac)" using scan(2) by (cases "r_Address r") simp
  obtain conn p where conn: "Adapter_Connect ?ad (r_Advertisement r) (r_Address r) w1 = Some (Inr conn, insert ''/d'' w1)"
    "charPair conn = Some (newLinuxCharIO linked_bus linked_sys p)"
    using bus_connects [of linked_bus w1 "insert ''/d'' w1" _ linked_sys "r_Advertisement r" mac]
    by (force simp: adapter_methods linux_adapter_def mac linked_bus_def)
  have "\<exists>err client. Login (NewTransport conn) (Inr (replicate 8 5)) (Inr [3, 4]) ''n'' ''p''
      (NewClient (GatewayMAC (NewTransport conn) v) []) (insert ''/d'' w1) = (Some err, client, insert ''/d'' w1)" for v
    using conn(2)
    by (simp add: Login_def randomSalt_def Let_def transport_methods wrap_error_def newLinuxCharIO_def
        linux_writeRequest_def linux_writeValue_def linux_read_def linked_bus_def ParseLoginResponse_def)
  then obtain err client where login: "Login (NewTransport conn) (Inr (replicate 8 5)) (Inr [3, 4]) ''n'' ''p''
      (NewClient (GatewayMAC (NewTransport conn) (insert ''/d'' w1)) []) (insert ''/d'' w1) = (Some err, client, insert ''/d'' w1)"
    by blast
  have "start_session False ''scan: %v'' ?ad (Inr (replicate 8 5)) (Inr [3, 4]) ''n'' ''p'' {} =
      Some (Fatal ''login: %v'' (Some err), insert ''/d'' w1)"
    using scan(1) conn login by (simp add: start_session_def Let_def)
  with new show ?thesis by (simp add: listen_main_def run_program_def)
qed

end
