(* ===== verification/Spec2Isabelle.thy ===== *)
theory Spec2Isabelle
  imports AES_Vector Byteutil Crypto Login Address_MAC Device_Class Protocol_Const Command Alarm
    Timezone Notification Advertisement Session Notify_Pump Client_Steps Client_Inv Client_End
    Ble_Ids Ble_Gatt Transport_Lock Ble_Hci Ble_Scan Scan_Steps Ble_Connect Delivery Links Programs
    Scan_Pick Mains
begin

text \<open>
  A model of pigsydust, the Go library that talks to SAL Pixie devices over a Telink BLE mesh, and
  of its \<open>ble\<close> module. The program: a client (client.go, session.go) logs in to one mesh node
  through a \<open>Transport\<close>, derives a session key (crypto/), encrypts commands (command/,
  schedule/) under it with a serial number that makes the nonce, decrypts the notifications of
  the node (notification.go) in a goroutine, and keeps the connection alive in another. The \<open>ble\<close>
  module provides that transport on Linux (BlueZ over D-Bus and a raw HCI socket) and elsewhere
  (tinygo), with scanners that parse advertisements (advertisement.go).

  Theories, with what they model.

  \<^item> \<open>Pigsy_Prelude\<close>: bytes as \<open>8 word\<close>, Go's slices, \<open>copy\<close> and little-endian access, errors
    (errors.go, \<open>fmt.Errorf\<close> with \<open>%w\<close>, \<open>errors.Is\<close>) as a datatype, and the locales shared by the
    rest: \<open>codec\<close> (a printer and a parser), \<open>step_invariant\<close> (an invariant of a step relation),
    \<open>step_rank\<close> and \<open>step_terminates\<close> (a relation whose runs are bounded and end in a final state),
    \<open>step_simulation\<close> (a relation whose states have partners in another), with \<open>reachable\<close> and \<open>steps\<close>.
  \<^item> \<open>Byteutil\<close>: internal/byteutil. \<open>Block_Cipher\<close> and \<open>AES_Vector\<close>: AES-128 of Go's standard
    library, a permutation of the blocks under each key, and the example of FIPS-197. \<open>Crypto\<close>: crypto/crypto.go (nonces,
    CBC-MAC, CTR, \<open>Encrypt\<close>, \<open>Decrypt\<close>). \<open>Login\<close>: crypto/login.go.
  \<^item> \<open>Address_MAC\<close> (address.go, types.go), \<open>Device_Class\<close> and \<open>Protocol_Const\<close> (protocol/),
    \<open>Command\<close> (command/), \<open>Alarm\<close> and \<open>Timezone\<close> (schedule/), \<open>Notification\<close> (notification.go),
    \<open>Advertisement\<close> (advertisement.go).
  \<^item> \<open>Session\<close>: session.go, options.go, transport.go and client.go as functions: \<open>Client\<close> and
    \<open>session\<close> are records with the fields of the structs, a \<open>Transport\<close> is a record of functions
    over an arbitrary state, and \<open>Login\<close> and \<open>Send\<close> thread client and transport state; random bytes
    are arguments, a panic is \<open>None\<close>.
  \<^item> \<open>Notify_Pump\<close>: the goroutine that \<open>Notifications\<close> starts, as a step relation between the raw
    channel and the output channel of capacity 64. \<open>Client_Steps\<close>: all goroutines of a client as
    one step relation \<open>mesh_step\<close>, a step per critical section, channel operation or transport
    call and assignment of \<open>startHeartbeat\<close> that \<open>Close\<close> reads without a lock; \<open>Client_Inv\<close>: its invariants,
    and runs of the relation that reach named states; \<open>Client_End\<close>: a bound on the steps of the calls, and
    where they end.
  \<^item> \<open>Ble_Ids\<close>, \<open>Ble_Gatt\<close>, \<open>Transport_Lock\<close>, \<open>Ble_Hci\<close>, \<open>Ble_Scan\<close>, \<open>Scan_Steps\<close>, \<open>Ble_Connect\<close>:
    ble/ids.go; transport.go, types.go and the characteristics; the methods of the transport side
    by side, with its mutex; the readers that deliver notifications; the scanners, first as
    functions of what they are told, then their goroutines step by step beside the caller, with
    cancellation; the adapters. D-Bus (\<open>Bus\<close>), the system calls (\<open>Sys\<close>) and tinygo's device and
    characteristics are records of functions given as arguments; \<open>bus_laws\<close> and \<open>sys_laws\<close> state
    what releasing resources needs of them.
  \<^item> \<open>Delivery\<close>: the HCI reader and the pump side by side, joined by their channel: each is
    simulated by its own relation, so that its invariants hold here too. \<open>Links\<close>: what every
    operation does to the devices connected on the bus, under the documented behaviour of
    \<open>Connect\<close> and \<open>Disconnect\<close> (\<open>link_laws\<close>). \<open>Programs\<close>: \<open>Adapter\<close>, cmd/fixture and the bodies of
    the programs of ble/cmd; \<open>Scan_Pick\<close>: their loop over the results of a scan, beside the scan;
    \<open>Mains\<close>: their \<open>main\<close> functions, from the password check to the deferred calls.

  What the properties show. The sections below follow the program: the cryptography (what is
  encrypted is decrypted by the other side, only genuine packets are accepted, and the loops are
  the textbook constructions); the session (its errors, the freshness of nonces among
  interleaved senders and its two limits: the counter wraps at 256, and a send may be overtaken
  by a login); the concurrent client (one subscription, ordered delivery, the end of the
  heartbeat, the refinement of the sequential operations); encoders and parsers; the \<open>ble\<close> module
  (the session run over it, the mutex of the transport, the scans, which refine their functional
  description, end when cancelled and give back what they took, and the path of a notification
  from the HCI socket to the caller and its end); and the programs. Termination is shown of each
  goroutine that a context ends (its own steps are bounded whatever the others do, and when it
  cannot go on it has closed its channel) and of the calls on a client. The numbers of the properties give their importance.

  Bounds. No fuel is used: every loop is structural recursion. Machine integers keep their width.
  A goroutine or a wait whose input comes from outside takes it as a list of events or as the
  actions of a step relation, so statements hold for inputs of every length. The capacities 16 and
  64 and the buffer size 1024 are the code's.

  Simplifications. Messages of errors keep their format and their wrapped errors, not the printed
  arguments. Maps of D-Bus that the code ranges over are lists, in an order nothing is assumed of.
  Timers and contexts are events; log output is not modelled. The signal channel of a scan is a
  queue without a bound: what D-Bus drops at its capacity 128 has not arrived. The unlocked accesses
  to \<open>hbCancel\<close> and \<open>hbDone\<close> are interleaved steps, not the weaker behaviours Go's memory model allows a
  race. In \<open>Programs\<close> and \<open>Mains\<close> a scan has ended before the program goes on, while the code lets
  it run on until its context is done; \<open>Scan_Pick\<close> shows that the node picked is the same, given
  the signals the scan has taken.

  Not modelled: the parsing of flags, delays and progress output of the programs under cmd/ and
  ble/cmd/, which change no state of the library; the documentation files (pigsydust.go,
  ble/doc.go); \<open>String\<close> methods that only forward to a field or a third-party package; and the
  conversions between the UUID types of the two packages, which belong to tinygo's.
\<close>

section \<open>Packets\<close>

text \<open>
  C1. A command sent after a successful login reaches the transport in one packet, and whoever
  holds the key of that login (derived from the names, the challenge of the request and the
  challenge of the response) and the gateway's MAC recovers from the packet exactly the
  encoded command.
\<close>

theorem login_then_send_recovered:
  assumes login: "Login tr (Inr randA) (Inr slt) name pass c w = (None, c1, w1)"
    and send: "Send tr cmd c1 w1 = Some (e, c2, w2)"
  shows "\<exists>resp randB packet pt.
     ParseLoginResponse resp = Inr randB \<and> Encode cmd = Some pt \<and>
     WriteCommand tr packet w1 = (e, w2) \<and>
     take 3 packet = [0, slt ! 0, slt ! 1] \<and>
     Decrypt (DeriveSessionKey name pass randA randB)
       (CommandNonce (s_gwMAC (c_session c)) (take 3 packet))
       (take 2 (drop 3 packet)) (drop 5 packet) = Inr pt"
  using Login_Send_packet [OF login send] by blast

theorem login_then_send_recovered_witness:
  "let tr = \<lparr>WritePair = (\<lambda>_ w. (None, w)),
             ReadPair = (\<lambda>w. (Inr (0x0D # replicate 16 7), w)),
             WriteCommand = (\<lambda>p w. (None, w @ [p])), SubscribeNotify = (\<lambda>w. (None, w)),
             GatewayMAC = (\<lambda>_. replicate 6 1)\<rparr>;
       c = NewClient (replicate 6 1) [];
       c1 = startHeartbeat (login_store
         (DeriveSessionKey ''mesh'' ''pw'' (replicate 8 5) (replicate 8 7)) [3, 4] c);
       cmd = OnOff 0x1234 True
   in \<exists>c2 w2 resp randB packet pt.
        ParseLoginResponse resp = Inr randB \<and> Encode cmd = Some pt \<and>
        WriteCommand tr packet [] = (None, w2) \<and> take 3 packet = [0, [3, 4] ! 0, [3, 4] ! 1] \<and>
        Decrypt (DeriveSessionKey ''mesh'' ''pw'' (replicate 8 5) randB)
          (CommandNonce (s_gwMAC (c_session c)) (take 3 packet))
          (take 2 (drop 3 packet)) (drop 5 packet) = Inr pt"
proof -
  let ?tr = "\<lparr>WritePair = (\<lambda>_ w. (None, w)), ReadPair = (\<lambda>w. (Inr (0x0D # replicate 16 7), w)),
     WriteCommand = (\<lambda>p w. (None, w @ [p])), SubscribeNotify = (\<lambda>w. (None, w)),
     GatewayMAC = (\<lambda>_. replicate 6 1)\<rparr> :: byte list list Transport"
  let ?c = "NewClient (replicate 6 1) []"
  let ?c1 = "startHeartbeat (login_store
     (DeriveSessionKey ''mesh'' ''pw'' (replicate 8 5) (replicate 8 7)) [3, 4] ?c)"
  have login: "Login ?tr (Inr (replicate 8 5)) (Inr [3, 4]) ''mesh'' ''pw'' ?c [] = (None, ?c1, [])"
    by (simp add: Login_def randomSalt_def ParseLoginResponse_def LoginResponseTag_def Let_def
        numeral_eq_Suc)
  obtain e c2 w2 where "Send ?tr (OnOff 0x1234 True) ?c1 [] = Some (e, c2, w2)" "e = None"
    by (auto simp: Send_def Encode_def OnOff_def nextSNO_def Let_def)
  with login_then_send_recovered [OF login] show ?thesis unfolding Let_def by blast
qed

text \<open>
  C4. A notification that a node encrypts (13 bytes of plaintext under the session key and the
  nonce of its serial number and address) comes out of \<open>DecryptNotification\<close> with the source,
  opcode, vendor and payload that went in.
\<close>

theorem notification_roundtrip:
  assumes "length sno = 3" "length payload = 10"
    and pt: "pt = op # lo8 vendor # hi8 vendor # payload"
  shows "DecryptNotification sk gw
       (notification_wire sno src (cbcMAC sk (NotificationNonce gw sno src) pt)
         (ctrCrypt sk (NotificationNonce gw sno src) pt)) =
     Inr \<lparr>Source = src, NOpcode = op, NVendor = vendor, Payload = payload\<rparr>"
proof -
  let ?n = "NotificationNonce gw sno src"
  have "Decrypt sk ?n (cbcMAC sk ?n pt) (ctrCrypt sk ?n pt) = Inr pt"
    by (simp add: Decrypt_Encrypt_parts)
  with assms show ?thesis by (simp add: DecryptNotification_wire)
qed

theorem notification_roundtrip_witness:
  "let sk = replicate 16 3; gw = [0, 0x21, 1, 2, 3, 4]; sno = [9, 8, 7];
       pt = 0xDB # lo8 0x6969 # hi8 0x6969 # replicate 10 5
   in DecryptNotification sk gw
       (notification_wire sno 0x0102 (cbcMAC sk (NotificationNonce gw sno 0x0102) pt)
         (ctrCrypt sk (NotificationNonce gw sno 0x0102) pt)) =
     Inr \<lparr>Source = 0x0102, NOpcode = 0xDB, NVendor = 0x6969, Payload = replicate 10 5\<rparr>"
  unfolding Let_def by (rule notification_roundtrip) simp_all

text \<open>
  C5. \<open>DecryptNotification\<close> accepts a packet exactly when it is 20 bytes long and its tag is the
  CBC-MAC, under the key and the nonce read from it, of the 13 bytes its ciphertext decrypts
  to; what it returns are the fields of that plaintext. Its errors: a packet of another length, or a tag
  that does not match. Neither is \<open>ErrShortPacket\<close> or \<open>ErrTagMismatch\<close> in the sense of \<open>errors.Is\<close>,
  and the check for a short plaintext never fires: what is decrypted has a payload of ten bytes.
\<close>

theorem notification_accepted_iff:
  "(DecryptNotification sk gw raw = Inr n \<longleftrightarrow>
     (\<exists>sno pt. length sno = 3 \<and> length pt = 13 \<and>
        raw = notification_wire sno (Source n) (cbcMAC sk (NotificationNonce gw sno (Source n)) pt)
                (ctrCrypt sk (NotificationNonce gw sno (Source n)) pt) \<and>
        n = \<lparr>Source = Source n, NOpcode = pt ! 0, NVendor = le16_of (pt ! 1) (pt ! 2),
             Payload = drop 3 pt\<rparr>)) \<and>
   (case DecryptNotification sk gw raw of
      Inl e \<Rightarrow> e = (if length raw = 20 then Errorf ''pigsydust/crypto: CBC-MAC tag mismatch''
                   else Errorf ''pigsydust: notification must be 20 bytes, got %d'') \<and>
              \<not> errors_is e ErrTagMismatch \<and> \<not> errors_is e ErrShortPacket
    | Inr n \<Rightarrow> length raw = 20 \<and> length (Payload n) = 10)"
  by (rule conjI [OF notification_accepts notification_errors])

section \<open>The cipher\<close>

text \<open>
  C23. The CTR loop, with its counter byte and its keystream buffer, is the XOR of the data with
  the keystream: byte \<open>i\<close> is byte \<open>i mod 16\<close> of the reversed AES of the block with counter
  \<open>i div 16\<close> (modulo 256), the nonce and seven zeros. Applied twice it gives the data back. Under
  one key, two keystream blocks with counters below 256 are equal only for the same counter and
  the same nonce: within a packet of up to 4096 bytes, and between packets with different
  nonces, no keystream block is used twice. The byte-by-byte loop of the CBC-MAC is the chain over
  16-byte blocks: starting from the encryption of the nonce with the data's length, each block (the last
  may be shorter) is XORed into the state and the state is encrypted; the tag is its first two bytes.
\<close>

theorem crypto_loops_are_textbook:
  assumes "length nonce = 8"
  shows "ctrCrypt sk nonce data =
       map (\<lambda>i. data ! i XOR
              ReversedAES sk (word_of_nat (i div 16) # nonce @ replicate 7 0) ! (i mod 16))
         [0..<length data] \<and>
     ctrCrypt sk nonce (ctrCrypt sk nonce data) = data \<and>
     (length sk = 16 \<and> length n' = 8 \<and> c < 256 \<and> c' < 256 \<longrightarrow>
        (ReversedAES sk (ctr_block nonce c) = ReversedAES sk (ctr_block n' c') \<longleftrightarrow> c = c' \<and> nonce = n')) \<and>
     cbcMAC sk nonce data =
       take 2 (mac_blocks sk
         (ReversedAES sk ((go_copy (replicate 16 0) nonce)[8 := word_of_nat (length data)])) data)"
proof (intro conjI impI)
  show "ctrCrypt sk nonce data = map (\<lambda>i. data ! i XOR
      ReversedAES sk (word_of_nat (i div 16) # nonce @ replicate 7 0) ! (i mod 16)) [0..<length data]"
    using ctrCrypt_keystream [OF assms] by (simp add: keystream_byte_def ctr_block_def)
  show "ctrCrypt sk nonce (ctrCrypt sk nonce data) = data" by (rule ctrCrypt_involution [OF assms])
  assume "length sk = 16 \<and> length n' = 8 \<and> c < 256 \<and> c' < 256"
  then show "ReversedAES sk (ctr_block nonce c) = ReversedAES sk (ctr_block n' c') \<longleftrightarrow> c = c' \<and> nonce = n'"
    using keystream_blocks_distinct [of sk nonce n' c c'] assms by blast
next
  show "cbcMAC sk nonce data =
     take 2 (mac_blocks sk
       (ReversedAES sk ((go_copy (replicate 16 0) nonce)[8 := word_of_nat (length data)])) data)"
    using cbcMAC_blocks [of sk nonce data] by (simp add: mac_state_def mac_b0_def)
qed

theorem crypto_loops_are_textbook_witness:
  "ctrCrypt (replicate 16 1) (replicate 8 2) (replicate 20 3) =
     map (\<lambda>i. replicate 20 3 ! i XOR
            ReversedAES (replicate 16 1) (word_of_nat (i div 16) # replicate 8 2 @ replicate 7 0) !
              (i mod 16)) [0..<length (replicate 20 (3 :: byte))] \<and>
   ctrCrypt (replicate 16 1) (replicate 8 2) (ctrCrypt (replicate 16 1) (replicate 8 2) (replicate 20 3)) =
     replicate 20 3 \<and>
   ReversedAES (replicate 16 1) (ctr_block (replicate 8 2) 0) \<noteq>
     ReversedAES (replicate 16 1) (ctr_block (replicate 8 2) 255)"
proof -
  have "length (replicate 8 (2 :: byte)) = 8" by simp
  note xor = crypto_loops_are_textbook [OF this, of "replicate 16 1" "replicate 20 3" "replicate 8 2" 0 255]
  from xor have "ReversedAES (replicate 16 1) (ctr_block (replicate 8 2) 0) \<noteq>
      ReversedAES (replicate 16 1) (ctr_block (replicate 8 2) 255)" by simp
  with xor show ?thesis by blast
qed

text \<open>
  On plaintexts of one block, as every command and notification is, the 16-byte state whose
  first two bytes are the tag is an injective function of the plaintext: two packets of the
  same length under one nonce agree in the tag only because it is cut to two bytes.
\<close>

theorem mac_state_injective:
  assumes "length sk = 16" "length p = length q" "length p \<le> 16"
  shows "mac_state sk nonce p = mac_state sk nonce q \<longleftrightarrow> p = q"
  using mac_state_inj [OF assms] by blast

theorem mac_state_injective_witness:
  "mac_state (replicate 16 1) (replicate 8 2) [1, 2, 3] =
     mac_state (replicate 16 1) (replicate 8 2) [1, 2, 4] \<longleftrightarrow> [1, 2, 3 :: byte] = [1, 2, 4]"
  by (rule mac_state_injective) simp_all

section \<open>The login\<close>

text \<open>
  C24. The session key depends on nothing but the two padded credentials' XOR and the two
  challenges: two handshakes with the same credentials give the same key only if both
  challenges agree, whereas swapping name and password never changes it.
\<close>

theorem session_key_fresh:
  assumes "length a = 8" "length b = 8" "length a' = 8" "length b' = 8"
  shows "(DeriveSessionKey name password a b = DeriveSessionKey name password a' b' \<longleftrightarrow>
            a = a' \<and> b = b') \<and>
         DeriveSessionKey name password a b = DeriveSessionKey password name a b"
  using DeriveSessionKey_eq_iff [OF assms] DeriveSessionKey_swap by blast

theorem session_key_fresh_witness:
  "(DeriveSessionKey ''n'' ''p'' (replicate 8 1) (replicate 8 2) =
      DeriveSessionKey ''n'' ''p'' (replicate 8 3) (replicate 8 2) \<longleftrightarrow>
    replicate 8 (1 :: byte) = replicate 8 3 \<and> replicate 8 (2 :: byte) = replicate 8 2) \<and>
   DeriveSessionKey ''n'' ''p'' (replicate 8 1) (replicate 8 2) =
     DeriveSessionKey ''p'' ''n'' (replicate 8 1) (replicate 8 2)"
  by (rule session_key_fresh) simp_all

text \<open>
  C18. A call that fails leaves the client as it was. A \<open>Login\<close> that fails stores no key, salt,
  counter or flag and starts no heartbeat, and every failure after the request is built is
  \<open>ErrLoginFailed\<close> to \<open>errors.Is\<close>; \<open>Notifications\<close> puts its flag back on every error; \<open>Send\<close> and
  \<open>Notifications\<close> before a login return \<open>ErrNotLoggedIn\<close> and do not touch the transport. Once
  logged in, \<open>Send\<close> panics exactly for a plaintext length that leaves no room for the header.
\<close>

theorem failed_calls_change_nothing:
  "(Login tr rndA rndSalt name pass c w = (Some e, c', w') \<longrightarrow>
      c' = c \<and> (rndA = Inr randA \<and> rndSalt = Inr slt \<longrightarrow> errors_is e ErrLoginFailed)) \<and>
   (Notifications tr c w = (Some e, c', w') \<longrightarrow> c' = c) \<and>
   (\<not> s_loggedIn (c_session c) \<longrightarrow>
      Send tr cmd c w = Some (Some ErrNotLoggedIn, c, w) \<and>
      (\<not> notifyActive c \<longrightarrow> Notifications tr c w = (Some ErrNotLoggedIn, c, w))) \<and>
   (s_loggedIn (c_session c) \<longrightarrow> (Send tr cmd c w = None \<longleftrightarrow> PlaintextLen cmd < 5))"
proof (intro conjI)
  show "Login tr rndA rndSalt name pass c w = (Some e, c', w') \<longrightarrow>
      c' = c \<and> (rndA = Inr randA \<and> rndSalt = Inr slt \<longrightarrow> errors_is e ErrLoginFailed)"
    by (auto simp: Login_def Let_def randomSalt_def split: login_splits)
  show "Notifications tr c w = (Some e, c', w') \<longrightarrow> c' = c"
    using Notifications_client [of tr c w "Some e" c' w'] by simp
  show "\<not> s_loggedIn (c_session c) \<longrightarrow> Send tr cmd c w = Some (Some ErrNotLoggedIn, c, w) \<and>
      (\<not> notifyActive c \<longrightarrow> Notifications tr c w = (Some ErrNotLoggedIn, c, w))"
    by (cases c) (simp add: Send_def Notifications_def)
  show "s_loggedIn (c_session c) \<longrightarrow> (Send tr cmd c w = None \<longleftrightarrow> PlaintextLen cmd < 5)"
    using Send_None_iff [of tr cmd c w] by simp
qed

theorem failed_calls_change_nothing_witness:
  "let tr = \<lparr>WritePair = (\<lambda>_ w. (None, w)), ReadPair = (\<lambda>w. (Inr [0x0E], w)),
             WriteCommand = (\<lambda>p w. (None, w)), SubscribeNotify = (\<lambda>w. (None, w)),
             GatewayMAC = (\<lambda>_. replicate 6 1)\<rparr> :: nat Transport;
       c = NewClient (replicate 6 1) []
   in \<exists>e c'. Login tr (Inr (replicate 8 5)) (Inr [3, 4]) ''n'' ''p'' c 0 = (Some e, c', 0) \<and> c' = c \<and>
        errors_is e ErrLoginFailed"
proof -
  let ?tr = "\<lparr>WritePair = (\<lambda>_ w. (None, w)), ReadPair = (\<lambda>w. (Inr [0x0E], w)),
     WriteCommand = (\<lambda>p w. (None, w)), SubscribeNotify = (\<lambda>w. (None, w)),
     GatewayMAC = (\<lambda>_. replicate 6 1)\<rparr> :: nat Transport"
  let ?c = "NewClient (replicate 6 1) []"
  have "Login ?tr (Inr (replicate 8 5)) (Inr [3, 4]) ''n'' ''p'' ?c 0 =
      (Some (Wrapf ''%w: %w'' [ErrLoginFailed,
         Errorf ''pigsydust/crypto: login response too short (%d bytes)'']), ?c, 0)"
    by (simp add: Login_def randomSalt_def ParseLoginResponse_def Let_def)
  from this mp [OF conjunct1 [OF failed_calls_change_nothing] this]
  show ?thesis unfolding Let_def by blast
qed

section \<open>Serial numbers and the nonce\<close>

text \<open>
  C6. Any number of goroutines may send at once: of the packets whose serial numbers were taken
  after the same login, among the first 256 no two have the same serial number, nor the same
  nonce.
\<close>

theorem first_256_nonces_differ:
  assumes "reachable (\<lambda>m. \<exists>opts. m = mesh_start gw opts) mesh_step m"
    and "(i, p) \<in> set (m_written m)" "(i', p') \<in> set (m_written m)" "i \<noteq> i'"
    and "of_login i = of_login i'" "of_index i < 256" "of_index i' < 256"
  shows "take 3 p \<noteq> take 3 p' \<and> CommandNonce gw (take 3 p) \<noteq> CommandNonce gw (take 3 p')"
proof -
  have "packet_ok gw (m_logins m) (m_count m) j q" if "(j, q) \<in> set (m_written m)" for j q
    using sends.reachable_inv [OF assms(1)] that by (auto simp: sends_inv_def written_ok_def)
  from serial_in_packet [OF this [OF assms(2)]] serial_in_packet [OF this [OF assms(3)]]
  have p: "take 3 p = serial_of (m_logins m) i" "take 3 p' = serial_of (m_logins m) i'" by simp_all
  have "of_index i \<noteq> of_index i'" using assms(4,5) by (metis serial_id.expand)
  then have "serial_of (m_logins m) i \<noteq> serial_of (m_logins m) i'"
    using assms(6,7) byte_offset_eq_iff [of "of_index i" "of_index i'" 0]
    by (simp add: serial_of_def Let_def)
  then show ?thesis by (simp add: p CommandNonce_inj)
qed

theorem first_256_nonces_differ_witness:
  "let m = send_state StatusQuery (send_state (OnOff 0x0102 True) login_state);
       p = snd (m_written m ! 0); p' = snd (m_written m ! 1)
   in reachable (\<lambda>m. \<exists>opts. m = mesh_start (replicate 6 5) opts) mesh_step m \<and>
      take 3 p \<noteq> take 3 p' \<and>
      CommandNonce (replicate 6 5) (take 3 p) \<noteq> CommandNonce (replicate 6 5) (take 3 p')"
proof -
  let ?m = "send_state StatusQuery (send_state (OnOff 0x0102 True) login_state)"
  note defs = send_state_def login_state_def mesh_start_def Let_def
  have r1: "reachable (\<lambda>m. \<exists>opts. m = mesh_start (replicate 6 5) opts) mesh_step
      (send_state (OnOff 0x0102 True) login_state)"
    by (rule send_state_reachable [OF login_state_reachable, where e = None])
      (simp_all add: login_state_def OnOff_def)
  have r: "reachable (\<lambda>m. \<exists>opts. m = mesh_start (replicate 6 5) opts) mesh_step ?m"
    by (rule send_state_reachable [OF r1, where e = None])
      (simp_all add: defs StatusQuery_def withDst_def nextSNO_def)
  have w: "map fst (m_written ?m) = [Serial 1 0, Serial 1 1]" by (simp add: defs)
  then obtain p p' where "m_written ?m = [(Serial 1 0, p), (Serial 1 1, p')]" by auto
  then show ?thesis
    using r first_256_nonces_differ [OF r, of "Serial 1 0" p "Serial 1 1" p'] by simp
qed

text \<open>
  C9. The counter is one byte: the 257th serial number of a login is the first again. Two
  packets encrypted under one key with that serial number reveal the XOR of their plaintexts.
\<close>

theorem serial_wraps_and_leaks:
  assumes "n + 256 < m" "length p = length q"
  shows "next_snos m s ! (n + 256) = next_snos m s ! n \<and>
     map2 (XOR)
       (drop 5 (Encrypt sk (CommandNonce gw (next_snos m s ! n)) (next_snos m s ! n) p))
       (drop 5 (Encrypt sk (CommandNonce gw (next_snos m s ! (n + 256))) (next_snos m s ! (n + 256)) q)) =
     map2 (XOR) p q"
proof -
  have 1: "next_snos m s ! (n + 256) = next_snos m s ! n" using assms(1) by (rule next_snos_wrap)
  have 3: "length (next_snos m s ! n) = 3" using assms(1) by (simp add: next_snos_closed)
  have "drop 5 (Encrypt sk nonce sno x) = ctrCrypt sk nonce x" if "length sno = 3" for nonce sno x
    using that by (simp add: Encrypt_def Let_def)
  then show ?thesis using 1 3 ctrCrypt_reuse [OF _ assms(2)] by simp
qed

theorem serial_wraps_and_leaks_witness:
  "let s = c_session (NewClient (replicate 6 1) []); p = replicate 15 (2 :: byte); q = replicate 15 3
   in next_snos 300 s ! (5 + 256) = next_snos 300 s ! 5 \<and>
     map2 (XOR)
       (drop 5 (Encrypt (replicate 16 4) (CommandNonce (replicate 6 1) (next_snos 300 s ! 5))
          (next_snos 300 s ! 5) p))
       (drop 5 (Encrypt (replicate 16 4) (CommandNonce (replicate 6 1) (next_snos 300 s ! (5 + 256)))
          (next_snos 300 s ! (5 + 256)) q)) = map2 (XOR) p q"
  unfolding Let_def by (rule serial_wraps_and_leaks) simp_all

section \<open>The concurrent client\<close>

text \<open>
  C3. Whatever the goroutines do, every packet handed to the transport decrypts, under a key
  stored by a completed login and the nonce of its own serial number, to an encoded command;
  so nothing is written before the first login has completed.
\<close>

theorem written_packets_authentic:
  assumes "reachable (\<lambda>m. \<exists>opts. m = mesh_start gw opts) mesh_step m" "(i, p) \<in> set (m_written m)"
  shows "s_loggedIn (c_session (m_client m)) \<and>
     (\<exists>sk slt cmd pt. (sk, slt) \<in> set (m_logins m) \<and> Encode cmd = Some pt \<and>
        Decrypt sk (CommandNonce gw (take 3 p)) (take 2 (drop 3 p)) (drop 5 p) = Inr pt)"
proof -
  have inv: "sends_inv gw m" by (rule sends.reachable_inv [OF assms(1)])
  with assms(2) have ok: "packet_ok gw (m_logins m) (m_count m) i p"
    by (auto simp: sends_inv_def written_ok_def)
  then obtain sk cmd pt where *: "sk \<in> fst ` set (m_logins m)" "Encode cmd = Some pt"
    "p = Encrypt sk (CommandNonce gw (serial_of (m_logins m) i)) (serial_of (m_logins m) i) pt"
    by (auto simp: packet_ok_def)
  have "Decrypt sk (CommandNonce gw (take 3 p)) (take 2 (drop 3 p)) (drop 5 p) = Inr pt"
    unfolding serial_in_packet [OF ok] unfolding *(3) by (rule Decrypt_Encrypt) simp_all
  moreover obtain slt where "(sk, slt) \<in> set (m_logins m)" using *(1) by auto
  moreover from this have "s_loggedIn (c_session (m_client m))"
    using inv by (auto simp: sends_inv_def session_ok_def Let_def)
  ultimately show ?thesis using *(2) by blast
qed

theorem written_packets_authentic_witness:
  "let m = send_state (OnOff 0x0102 True) login_state; p = snd (m_written m ! 0)
   in \<exists>sk slt cmd pt. (sk, slt) \<in> set (m_logins m) \<and> Encode cmd = Some pt \<and>
        Decrypt sk (CommandNonce (replicate 6 5) (take 3 p)) (take 2 (drop 3 p)) (drop 5 p) = Inr pt"
proof -
  let ?m = "send_state (OnOff 0x0102 True) login_state"
  have r: "reachable (\<lambda>m. \<exists>opts. m = mesh_start (replicate 6 5) opts) mesh_step ?m"
    by (rule send_state_reachable [OF login_state_reachable, where e = None])
      (simp_all add: login_state_def OnOff_def)
  have "length (m_written ?m) = 1" by (simp add: send_state_def login_state_def mesh_start_def Let_def)
  then obtain i p where "m_written ?m = [(i, p)]" by (auto simp: length_Suc_conv)
  then show ?thesis using written_packets_authentic [OF r, of i p] by (simp only: Let_def) auto
qed

text \<open>
  C10. A \<open>Send\<close> that a second \<open>Login\<close> overtakes between its two critical sections writes a packet
  under the old key with a serial number of the new login: the check and the serial number are
  not one critical section.
\<close>

theorem send_overtaken_by_login:
  "\<exists>m i p pt old new. mesh_reachable m \<and> m_written m = [(i, p)] \<and> of_login i = 2 \<and>
     map fst (m_logins m) = [old, new] \<and> old \<noteq> new \<and> s_key (c_session (m_client m)) = new \<and>
     Encode StatusQuery = Some pt \<and>
     p = Encrypt old (CommandNonce (replicate 6 5) (take 3 p)) (take 3 p) pt"
proof -
  let ?old = "DeriveSessionKey ''n'' ''p'' (replicate 8 1) (replicate 8 2)"
  let ?new = "DeriveSessionKey ''n'' ''p'' (replicate 8 7) (replicate 8 2)"
  obtain pt where pt: "Encode StatusQuery = Some pt"
    using Encode_panics_iff [of StatusQuery] by (auto simp: StatusQuery_def withDst_def)
  let ?m = "overtaken_state StatusQuery pt"
  let ?p = "Encrypt ?old (CommandNonce (replicate 6 5) [0, 3, 4]) [0, 3, 4] pt"
  have ne: "?old \<noteq> ?new" by (simp add: DeriveSessionKey_eq_iff)
  have m: "m_written ?m = [(Serial 2 0, ?p)]" "map fst (m_logins ?m) = [?old, ?new]"
    "s_key (c_session (m_client ?m)) = ?new"
    by (simp_all add: overtaken_state_def login_state_def mesh_start_def nextSNO_def Let_def)
  have "mesh_reachable ?m"
    using reachable_any_gw [OF overtaken_state_reachable [OF pt]] .
  moreover have "take 3 ?p = [0, 3, 4]" by (simp add: Encrypt_def Let_def)
  ultimately show ?thesis using m ne pt
    by (intro exI [of _ ?m] exI [of _ "Serial 2 0"] exI [of _ ?p] exI [of _ pt]
        exI [of _ ?old] exI [of _ ?new]) simp
qed

text \<open>
  C11. At most one subscription lives at a time: one goroutine between setting the flag and
  starting the pump, or one pump that has not cleared it; and the flag says exactly whether
  there is one.
\<close>

theorem one_subscription:
  assumes "mesh_reachable m"
  shows "(notifyActive (m_client m) \<longleftrightarrow> holders m \<noteq> {}) \<and>
         (h \<in> holders m \<and> h' \<in> holders m \<longrightarrow> h = h')"
proof -
  have inv: "notify_inv m" by (rule notify.reachable_inv [OF assms])
  then show ?thesis
    using notify_held [OF inv, of h] notify_held [OF inv] by (auto simp: notify_inv_def)
qed

theorem one_subscription_witness:
  "let m = goto 0 NotifyCheck (set_notifyActive True (goto 0 NotifyFlag (mesh_start (replicate 6 1) [])))
   in mesh_reachable m \<and> (notifyActive (m_client m) \<longleftrightarrow> holders m \<noteq> {}) \<and>
      (Inl 0 \<in> holders m \<and> Inl 0 \<in> holders m \<longrightarrow> Inl 0 = (Inl 0 :: nat + nat))"
proof -
  let ?m0 = "mesh_start (replicate 6 1) []"
  have "mesh_reachable ?m0" by (rule reach_start) blast
  then have "mesh_reachable (goto 0 NotifyFlag ?m0)"
    using reach_call [of _ ?m0 0 None OpNotifications] by (simp add: mesh_start_def)
  then have r: "mesh_reachable (goto 0 NotifyCheck (set_notifyActive True (goto 0 NotifyFlag ?m0)))"
    by (rule reach_step) (rule notify_flag, simp_all add: mesh_start_def)
  show ?thesis unfolding Let_def by (rule conjI [OF r one_subscription [OF r]])
qed

text \<open>
  C12. What the caller of \<open>Notifications\<close> receives, followed by what waits in the channel (never
  more than 64), is the list of the packets taken from the transport that decrypt, decrypted
  and in order, short of at most the last one; and nothing at all is missing when the pump
  ended because the transport's channel closed.
\<close>

theorem pump_delivers_in_order:
  assumes "pump_reachable p"
  shows "length (p_out p) \<le> 64 \<and>
     (\<exists>last. decrypted (p_key p) (p_mac p) (p_taken p) = p_received p @ p_out p @ last \<and>
        length last \<le> 1 \<and> (p_pc p = PumpDone \<and> \<not> p_ctxDone p \<longrightarrow> last = [] \<and> p_raw p = []))"
proof -
  have "pump_inv p" by (rule pump.reachable_inv [OF assms])
  then have del: "pump_delivers p" and q: "p_sent p = p_received p @ p_out p" "length (p_out p) \<le> 64"
    by (simp_all add: pump_inv_def pump_queue_def out_capacity_def)
  from del have "\<exists>last. pump_spec p = p_sent p @ last \<and> length last \<le> 1 \<and>
      (p_pc p = PumpDone \<and> \<not> p_ctxDone p \<longrightarrow> last = [] \<and> p_raw p = [])"
    by (auto simp: pump_delivers_def split: pump_pc.splits)
  with q show ?thesis by (simp add: pump_spec_def)
qed

theorem pump_delivers_in_order_witness:
  "let p = (pump_start (replicate 16 1) (replicate 6 2) (Some 0))\<lparr>p_rawClosed := True\<rparr>;
       p = p\<lparr>p_pc := PumpUnflag\<rparr>; p = p\<lparr>p_pc := PumpClose\<rparr>;
       p = p\<lparr>p_outClosed := True, p_pc := PumpDone\<rparr>
   in pump_reachable p \<and> length (p_out p) \<le> 64 \<and>
     (\<exists>last. decrypted (p_key p) (p_mac p) (p_taken p) = p_received p @ p_out p @ last \<and>
        length last \<le> 1 \<and> (p_pc p = PumpDone \<and> \<not> p_ctxDone p \<longrightarrow> last = [] \<and> p_raw p = []))"
proof -
  let ?p0 = "pump_start (replicate 16 1) (replicate 6 2) (Some 0)"
  let ?p1 = "?p0\<lparr>p_rawClosed := True\<rparr>" let ?p2 = "?p1\<lparr>p_pc := PumpUnflag\<rparr>"
  let ?p3 = "?p2\<lparr>p_pc := PumpClose\<rparr>" let ?p4 = "?p3\<lparr>p_outClosed := True, p_pc := PumpDone\<rparr>"
  have "pump_reachable ?p0" by (rule reach_start) blast
  then have "pump_reachable ?p1"
    by (rule reach_step) (rule raw_closes, simp add: pump_start_def)
  then have "pump_reachable ?p2"
    by (rule reach_step) (rule select_closed, simp_all add: pump_start_def)
  then have "pump_reachable ?p3" by (rule reach_step) (rule clears_flag, simp)
  then have r: "pump_reachable ?p4" by (rule reach_step) (rule closes_out, simp)
  show ?thesis unfolding Let_def by (rule conjI [OF r pump_delivers_in_order [OF r]])
qed

text \<open>
  C17. \<open>Close\<close> returns only when no heartbeat is running: either none was ever started or its
  loop has ended. After its end there is no heartbeat any more, however the client is used
  afterwards: a further \<open>Login\<close> succeeds, but it does not start the loop again.
\<close>

theorem heartbeat_ends_with_close:
  assumes "mesh_reachable m"
  shows "(mesh_step m (Runs t) m1 \<and> m_routine m t \<in> {CloseCheck, CloseWait} \<and> m_routine m1 t = Returned e \<longrightarrow>
      e = None \<and> m_hb m1 \<in> {HbNone, HbExited}) \<and>
   (m_hb m = HbExited \<and> steps mesh_step m as m2 \<longrightarrow> m_hb m2 = HbExited \<and> m_hbReads m2 = m_hbReads m)"
proof (rule conjI; rule impI; elim conjE)
  have inv: "heartbeat_inv m" by (rule heartbeat.reachable_inv [OF assms])
  show "e = None \<and> m_hb m1 \<in> {HbNone, HbExited}"
    if "mesh_step m (Runs t) m1" "m_routine m t \<in> {CloseCheck, CloseWait}" "m_routine m1 t = Returned e"
    by (rule close_returns [OF that inv])
  show "m_hb m2 = HbExited \<and> m_hbReads m2 = m_hbReads m"
    if "m_hb m = HbExited" "steps mesh_step m as m2"
    by (rule exited_steps [OF that(2,1) inv])
qed

theorem heartbeat_ends_with_close_witness:
  "\<exists>m m'. mesh_reachable m \<and> m_hb m = HbExited \<and>
     steps mesh_step m (Calls 0 (OpLogin ''n'' ''p'') # replicate 6 (Runs 0)) m' \<and>
     m_routine m' 0 = Returned None \<and> s_loggedIn (c_session (m_client m')) \<and>
     m_hb m' = HbExited \<and> m_hbReads m' = m_hbReads m"
proof -
  let ?login = "goto 0 (entry (OpLogin ''n'' ''p'')) closed_state"
  let ?m' = "after_login 0 (DeriveSessionKey ''n'' ''p'' (replicate 8 1) (replicate 8 2)) [3, 4] ?login"
  have r: "mesh_reachable closed_state" by (rule reachable_any_gw [OF closed_state_reachable])
  have "mesh_step closed_state (Calls 0 (OpLogin ''n'' ''p'')) ?login" by (rule calls) simp
  moreover have "steps mesh_step ?login (replicate 6 (Runs 0)) ?m'"
    using run_login [OF _ _ _ example_response, of ?login 0 "''n''" "''p''" "replicate 8 1" "[3, 4]"]
    by (simp add: login_length_def)
  ultimately have s: "steps mesh_step closed_state (Calls 0 (OpLogin ''n'' ''p'') # replicate 6 (Runs 0)) ?m'"
    by (rule steps_Cons)
  have "m_routine ?m' 0 = Returned None" "s_loggedIn (c_session (m_client ?m'))" by simp_all
  with r s mp [OF conjunct2 [OF heartbeat_ends_with_close [OF r]] conjI [OF closed_state_fields(2) s]]
  show ?thesis
    by (intro exI [of _ closed_state] exI [of _ ?m'] conjI closed_state_fields(2)) simp_all
qed

text \<open>
  C16. The calls on a client return. If the goroutines \<open>T\<close> are the only ones that have called it, the
  steps they take inside their calls, with those of the heartbeat's goroutine short of a further tick,
  are at most \<open>11 * card T + 2\<close>, in any order; where none is left, and such an end is always reached, every
  call has returned, except that a goroutine has panicked, that a \<open>Close\<close> waits for a heartbeat that has
  panicked, or that a \<open>Close\<close> waits on the nil channel it read while the first \<open>Login\<close> was about to
  assign it. This last does happen: that \<open>Close\<close> never returns, whatever is done afterwards, although
  the \<open>Login\<close> has succeeded.
\<close>

theorem client_calls_return:
  assumes "mesh_reachable m" "finite T" "\<forall>t. t \<notin> T \<longrightarrow> m_routine m t = Idle"
  shows "(steps (mesh_own T) m as m' \<longrightarrow>
      length as \<le> 11 * card T + 2 \<and> ((\<nexists>a m''. mesh_own T m' a m'') \<longrightarrow> calls_over m')) \<and>
   (\<exists>as m'. steps (mesh_own T) m as m' \<and> calls_over m') \<and>
   (\<exists>m0. mesh_reachable m0 \<and> m_routine m0 0 = Returned None \<and> s_loggedIn (c_session (m_client m0)) \<and>
      (\<forall>as m1. steps mesh_step m0 as m1 \<longrightarrow> m_routine m1 1 = CloseForever))"
  using calls_return [OF assms] close_waits_forever forever_steps by blast

theorem client_calls_return_witness:
  "let m = goto 0 (entry OpClose) login_state
   in mesh_reachable m \<and> m_routine m 0 = CloseCheck \<and>
      (\<exists>as m'. steps (mesh_own {0}) m as m' \<and> length as \<le> 13 \<and> calls_over m')"
proof -
  let ?m = "goto 0 (entry OpClose) login_state"
  have routine: "m_routine login_state = (\<lambda>_. Idle)(0 := Returned None)"
    by (auto simp: login_state_def mesh_start_def fun_eq_iff)
  have r: "mesh_reachable ?m"
    by (rule reach_call [OF reachable_any_gw [OF login_state_reachable]]) (simp add: routine)
  have "\<forall>t. t \<notin> {0} \<longrightarrow> m_routine ?m t = Idle" by (simp add: routine)
  note ret = client_calls_return [OF r _ this]
  from ret obtain as m' where run: "steps (mesh_own {0}) ?m as m'" "calls_over m'" by blast
  moreover from ret run(1) have "length as \<le> 13" by fastforce
  ultimately show ?thesis unfolding Let_def using r by auto
qed



text \<open>
  C38. Options are applied in order after the default logger has been put in, so the last one
  wins and a nil logger given as an option stays; with it, the first packet that does not
  decrypt makes the pump panic, and a heartbeat interval that is not positive makes the
  heartbeat's goroutine panic at its ticker.
\<close>

theorem options_last_wins:
  "c_opts (NewClient gw (opts @ [WithLogger l, WithHeartbeatInterval d])) =
     \<lparr>heartbeatInterval = d, logger = l\<rparr> \<and>
   (DecryptNotification sk gw pkt = Inl err \<longrightarrow>
      pump_packet (pump_start sk gw (logger (c_opts (NewClient gw [WithLogger None])))) pkt = PumpPanicked) \<and>
   (m_hb m = HbTicker \<and> d \<le> 0 \<and> c_opts (m_client m) = c_opts (NewClient gw [WithHeartbeatInterval d]) \<and>
      mesh_step m Beats m' \<longrightarrow> m_hb m' = HbPanicked)"
proof (intro conjI impI)
  show "c_opts (NewClient gw (opts @ [WithLogger l, WithHeartbeatInterval d])) =
     \<lparr>heartbeatInterval = d, logger = l\<rparr>"
    by (simp add: NewClient_def WithLogger_def WithHeartbeatInterval_def Let_def)
next
  assume "DecryptNotification sk gw pkt = Inl err"
  then show "pump_packet (pump_start sk gw (logger (c_opts (NewClient gw [WithLogger None])))) pkt = PumpPanicked"
    by (simp add: pump_packet_def pump_start_def NewClient_def WithLogger_def Let_def)
next
  assume "m_hb m = HbTicker \<and> d \<le> 0 \<and> c_opts (m_client m) = c_opts (NewClient gw [WithHeartbeatInterval d]) \<and>
      mesh_step m Beats m'"
  then show "m_hb m' = HbPanicked"
    by (auto elim!: mesh_beatsE simp: NewClient_def WithHeartbeatInterval_def Let_def)
qed

theorem options_last_wins_witness:
  "pump_packet (pump_start (replicate 16 1) (replicate 6 1)
     (logger (c_opts (NewClient (replicate 6 1) [WithLogger None])))) [1, 2, 3] = PumpPanicked"
  by (rule mp [OF conjunct1 [OF conjunct2 [OF options_last_wins
        [where err = "Errorf ''pigsydust: notification must be 20 bytes, got %d''"]]]])
    (simp add: DecryptNotification_def ParseNotificationWire_def)

section \<open>Commands\<close>

text \<open>
  C30. Every command the builders of the library return is encoded without a panic into as many
  bytes as it declares, and the receiver reads back its destination, its opcode, its vendor and
  its data, padded with zeros. The builders are all listed in \<open>built\<close>; the group list of
  \<open>SetGroupMembership\<close> must have at most eight entries. A longer list is cut to the eight low
  bytes that fit, while the count byte still announces all of them (modulo 256).
\<close>

theorem built_commands_encode:
  assumes "built c"
  shows "(\<exists>b. Encode c = Some b \<and> int (length b) = PlaintextLen c \<and>
     read_plaintext b = Some (Destination c, Opcode c, Vendor c,
       Data c @ replicate (nat (PlaintextLen c) - 5 - length (Data c)) 0)) \<and>
   (8 < length gs \<longrightarrow> Encode (SetGroupMembership dst gs gw) =
      Some ([lo8 dst, hi8 dst, OpSetGroup, lo8 VendorSkytone, hi8 VendorSkytone,
        word_of_nat (length gs), gw] @ take 8 gs))"
  using built_Encode [OF assms] built_fits [OF assms] SetGroupMembership_truncates by (auto simp: of_nat_diff)

theorem built_commands_encode_witness:
  "(\<exists>b. Encode (OnOff 0x1234 True) = Some b \<and> int (length b) = PlaintextLen (OnOff 0x1234 True) \<and>
     read_plaintext b = Some (Destination (OnOff 0x1234 True), Opcode (OnOff 0x1234 True),
       Vendor (OnOff 0x1234 True), Data (OnOff 0x1234 True) @
         replicate (nat (PlaintextLen (OnOff 0x1234 True)) - 5 - length (Data (OnOff 0x1234 True))) 0)) \<and>
   Encode (SetGroupMembership 0x0102 (replicate 9 5) 7) =
     Some ([lo8 0x0102, hi8 0x0102, OpSetGroup, lo8 VendorSkytone, hi8 VendorSkytone, 9, 7] @ replicate 8 5)"
proof -
  have "built (OnOff 0x1234 True)" by (rule built.intros)
  from built_commands_encode [OF this, where gs = "replicate 9 5" and dst = "0x0102" and gw = 7]
  show ?thesis by (simp add: numeral_eq_Suc)
qed

text \<open>
  C31. The two frames of \<open>WriteAlarm\<close>, as the coordinator reads them off the encoded commands,
  carry the whole record in order, and a last byte that makes the XOR of all seventeen zero; a
  change of a single byte of the record breaks that check.
\<close>

theorem alarm_frames_reassemble:
  assumes "length r = 16" and frames: "WriteAlarm r = (f0, f1)"
  shows "\<exists>b0 b1. Encode f0 = Some b0 \<and> Encode f1 = Some b1 \<and>
     b0 ! 5 = 0 \<and> b1 ! 5 = 1 \<and> take 9 (drop 6 b0) @ take 7 (drop 6 b1) = r \<and>
     XORFold (r @ [b1 ! 13]) = 0 \<and>
     (i < 16 \<and> v \<noteq> r ! i \<longrightarrow> XORFold (r[i := v] @ [b1 ! 13]) \<noteq> 0)"
proof -
  have built: "built f0" "built f1" using built.intros(14) [OF assms(1)] frames by (auto simp: frames)
  note d = WriteAlarm_Data [OF frames]
  have pl: "PlaintextLen f0 = 15" "PlaintextLen f1 = 15"
    using frames by (auto simp: WriteAlarm_def Let_def)
  have "Encode f0 = Some ([lo8 (Destination f0), hi8 (Destination f0), Opcode f0,
      lo8 (Vendor f0), hi8 (Vendor f0)] @ 0x00 # take 9 r)"
    using built_Encode [OF built(1)] by (simp add: d pl assms(1))
  moreover have "Encode f1 = Some ([lo8 (Destination f1), hi8 (Destination f1), Opcode f1,
      lo8 (Vendor f1), hi8 (Vendor f1)] @ 0x01 # drop 9 r @ [XORFold r, 0])"
    using built_Encode [OF built(2)] by (simp add: d pl assms(1) numeral_eq_Suc)
  moreover have "XORFold (r[i := v] @ [XORFold r]) \<noteq> 0" if "i < 16" "v \<noteq> r ! i"
    using XORFold_single_change that assms(1) by simp
  ultimately show ?thesis
    using assms(1) by (auto simp: nth_append)
qed

theorem alarm_frames_reassemble_witness:
  "let r = [1, 2, 3, 4, 5, 6, 7, 8, 9, 10, 11, 12, 13, 14, 15, 16 :: byte];
       f0 = fst (WriteAlarm r); f1 = snd (WriteAlarm r)
   in \<exists>b0 b1. Encode f0 = Some b0 \<and> Encode f1 = Some b1 \<and>
     b0 ! 5 = 0 \<and> b1 ! 5 = 1 \<and> take 9 (drop 6 b0) @ take 7 (drop 6 b1) = r \<and>
     XORFold (r @ [b1 ! 13]) = 0 \<and>
     (3 < (16 :: nat) \<and> 0 \<noteq> r ! 3 \<longrightarrow> XORFold (r[3 := 0] @ [b1 ! 13]) \<noteq> 0)"
  unfolding Let_def by (rule alarm_frames_reassemble) simp_all

section \<open>Schedules\<close>



text \<open>
  C32. \<open>LocalToUTC\<close> shifts the hours of the week at which a schedule fires by minus the offset,
  modulo the 168 hours of a week, for every offset of at most a day: the hour and the rotated
  weekday mask together name the same instants. \<open>UTCToLocal\<close> undoes it, up to the eighth bit of
  the mask, which names no weekday.
\<close>

theorem local_to_utc_same_instants:
  assumes "h < 24" "\<bar>tz\<bar> \<le> 24" "LocalToUTC h r tz = (u, r')"
  shows "u < 24 \<and> fire_hours (uint u) r' = (\<lambda>x. (x - tz) mod 168) ` fire_hours (uint h) r \<and>
     UTCToLocal u r' tz = (h, r AND 0x7F)"
proof -
  have h: "0 \<le> uint h" "uint h < 24" using assms(1) by (simp_all add: word_less_def)
  have eq: "shift_schedule (uint h) (r AND 0x7F) (- tz) = (u, r')"
    using assms(2,3) by (simp add: LocalToUTC_shift)
  then have "uint u = (uint h - tz) mod 24"
    by (auto simp: shift_schedule_def uint_hour)
  then have "u < 24" by (simp add: word_less_def)
  moreover have "UTCToLocal u r' tz = (h, r AND 0x7F)"
    using shift_schedule_back [OF h _ eq] assms(2) by (simp add: UTCToLocal_shift)
  ultimately show ?thesis using shift_schedule_fires [OF h _ eq] assms(2) by simp
qed

theorem local_to_utc_same_instants_witness:
  "LocalToUTC 6 0x1F 10 = (20, 0x4F) \<and> (20 :: byte) < 24 \<and>
   fire_hours (uint (20 :: byte)) 0x4F = (\<lambda>x. (x - 10) mod 168) ` fire_hours (uint (6 :: byte)) 0x1F \<and>
   UTCToLocal 20 0x4F 10 = (6, 0x1F)"
proof -
  have e: "LocalToUTC 6 0x1F 10 = (20, 0x4F)"
    by (simp add: LocalToUTC_def smod_pos rotate_back_def)
  from local_to_utc_same_instants [OF _ _ e] e show ?thesis by simp
qed

section \<open>Devices and addresses\<close>

text \<open>
  C39. The class lookup never invents a class: its result is the unknown class or one with a
  name, and the name is empty exactly for the unknown class; and it is complete: every named
  class but the synthetic \<open>ACF_RS8\<close> (which every pair with subtype 0x39 gives) is found from its
  canonical type and subtype halved into wire bytes.
\<close>

theorem device_class_lookup:
  "(DeviceClassName t s = [] \<longleftrightarrow> DeviceClassLookup t s = DeviceClassUnknown) \<and>
   DeviceClassLookup t 0x39 = ACF_RS8 \<and>
   (\<forall>(c, n) \<in> set deviceClassNames. c \<noteq> ACF_RS8 \<longrightarrow>
      DeviceClassLookup (word_of_int (c div 2000)) (word_of_int (c mod 1000 div 2)) = c \<and>
      DeviceClassName (word_of_int (c div 2000)) (word_of_int (c mod 1000 div 2)) = n)"
proof (intro conjI ballI)
  show "DeviceClassName t s = [] \<longleftrightarrow> DeviceClassLookup t s = DeviceClassUnknown"
    using DeviceClassLookup_known [of t s] Unknown_unnamed
    by (auto simp: DeviceClassName_def ClassName_empty)
  show "DeviceClassLookup t 0x39 = ACF_RS8" by (simp add: DeviceClassLookup_def)
  fix p assume p: "p \<in> set deviceClassNames"
  obtain c n where cn: "p = (c, n)" by (cases p)
  have named: "map_of deviceClassNames c = Some n"
    using p distinct_names unfolding cn by (rule map_of_is_SomeI [rotated])
  then show "case p of (c, n) \<Rightarrow> c \<noteq> ACF_RS8 \<longrightarrow>
      DeviceClassLookup (word_of_int (c div 2000)) (word_of_int (c mod 1000 div 2)) = c \<and>
      DeviceClassName (word_of_int (c div 2000)) (word_of_int (c mod 1000 div 2)) = n"
    using DeviceClassLookup_canonical [OF named]
    by (simp add: cn DeviceClassName_def ClassName_def)
qed

theorem device_class_lookup_witness:
  "DeviceClassLookup (word_of_int (48066 div 2000)) (word_of_int (48066 mod 1000 div 2)) = 48066"
proof -
  have "(48066, ''SFI_825X'') \<in> set deviceClassNames" by (simp add: deviceClassNames_def)
  from bspec [OF conjunct2 [OF conjunct2 [OF device_class_lookup]] this] show ?thesis
    by (simp add: ACF_RS8_def)
qed

text \<open>
  C40. Addresses: no address is both individual and a group; the rest are 0, the two broadcast
  values; a group identifier put into an address comes back, and always names a group.
\<close>

theorem address_partition:
  "(IsIndividual a \<longleftrightarrow> a \<noteq> 0 \<and> \<not> IsGroup a \<and> a \<noteq> AddrBroadcast \<and> a \<noteq> AddrBroadcastPoll) \<and>
   IsGroup (GroupAddress gid) \<and> GroupID (GroupAddress gid) = gid \<and>
   (\<not> IsGroup a \<longrightarrow> GroupID a = 0)"
proof -
  have "a < 0x7FFF \<longleftrightarrow> \<not> 0x8000 \<le> a \<and> a \<noteq> 0x7FFF"
    by (simp add: word_le_nat_alt word_less_nat_alt word_unat_eq_iff) arith
  then have "IsIndividual a \<longleftrightarrow> a \<noteq> 0 \<and> \<not> IsGroup a \<and> a \<noteq> AddrBroadcast \<and> a \<noteq> AddrBroadcastPoll"
    by (auto simp: IsIndividual_def IsGroup_iff go_const)
  moreover have "\<not> IsGroup a \<Longrightarrow> GroupID a = 0" by (simp add: GroupID_def)
  ultimately show ?thesis by (simp add: IsGroup_GroupAddress GroupID_GroupAddress)
qed

theorem address_partition_witness:
  "GroupID 0x0102 = 0"
  by (rule mp [OF conjunct2 [OF conjunct2 [OF conjunct2 [OF address_partition]]]])
    (simp add: IsGroup_def go_const)

text \<open>
  C35. Manufacturer data as a node fills it (any two leading bytes, the low four bytes of its MAC
  in reverse, then its fields) parses to those fields, with the fixed first two MAC bytes and
  the network identifier put together from its four bytes; another company or fewer than 15
  bytes is an error.
\<close>

theorem manufacturer_data_parsed:
  assumes "length company = 2"
  shows "ParseManufacturerData ManufacturerID
       (advertisement_bytes company mac ty st status addr gap net tail) =
     Inr \<lparr>MeshName = [], AMAC = [0x00, 0x21, mac ! 2, mac ! 3, mac ! 4, mac ! 5],
       DeviceType = ty, DeviceSubtype = st, AStatusByte = status,
       AStatusFlags = ParseStatusFlags status, MeshAddress = addr, NetworkID = net,
       Raw = advertisement_bytes company mac ty st status addr gap net tail\<rparr> \<and>
     ((\<exists>e. ParseManufacturerData cid data = Inl e) \<longleftrightarrow> cid \<noteq> ManufacturerID \<or> length data < 15)"
  using ParseAdvertisement_bytes [OF assms] ParseAdvertisement_None [of data]
  by (auto simp: ParseManufacturerData_def split: option.splits)

theorem manufacturer_data_parsed_witness:
  "let b = advertisement_bytes [0x11, 0x02] [0, 0x21, 1, 2, 3, 4] 0x47 9 0x0D 4 0 0xDEADBEEF [5]
   in ParseManufacturerData ManufacturerID b =
     Inr \<lparr>MeshName = [], AMAC = [0x00, 0x21, [0, 0x21, 1, 2, 3, 4] ! 2, [0, 0x21, 1, 2, 3, 4] ! 3,
         [0, 0x21, 1, 2, 3, 4] ! 4, [0, 0x21, 1, 2, 3, 4] ! 5],
       DeviceType = 0x47, DeviceSubtype = 9, AStatusByte = 0x0D,
       AStatusFlags = ParseStatusFlags 0x0D, MeshAddress = 4, NetworkID = 0xDEADBEEF, Raw = b\<rparr> \<and>
     ((\<exists>e. ParseManufacturerData 0x0212 b = Inl e) \<longleftrightarrow> (0x0212 \<noteq> ManufacturerID \<or> length b < 15))"
  unfolding Let_def by (rule manufacturer_data_parsed) simp



section \<open>The BLE library\<close>

text \<open>
  C8. The client over the BLE transport: on a connection with all three characteristics, a login
  is one write request and one read on the pairing characteristic, and a command sent after it
  is one write without response on the command characteristic, of a packet from which the
  holder of the key recovers the command.
\<close>

theorem session_over_ble:
  assumes "complete conn"
    and login: "Login (NewTransport conn) (Inr randA) (Inr slt) name pass c w = (None, c1, w1)"
    and send: "Send (NewTransport conn) cmd c1 w1 = Some (None, c2, w2)"
  shows "\<exists>pair cmdio w0 resp randB packet pt.
     charPair conn = Some pair \<and> charCmd conn = Some cmdio \<and>
     writeRequest pair (BuildLoginRequest name pass randA) w = (None, w0) \<and>
     read_value pair w0 = (Inr resp, w1) \<and> ParseLoginResponse resp = Inr randB \<and>
     writeCommand cmdio packet w1 = (None, w2) \<and> Encode cmd = Some pt \<and>
     Decrypt (DeriveSessionKey name pass randA randB)
       (CommandNonce (s_gwMAC (c_session c)) (take 3 packet))
       (take 2 (drop 3 packet)) (drop 5 packet) = Inr pt"
proof -
  from assms(1) obtain pair cmdio where io: "charPair conn = Some pair" "charCmd conn = Some cmdio"
    by (auto simp: complete_def)
  from Login_Send_packet [OF login send] obtain w0 resp randB packet pt where
    s: "WritePair (NewTransport conn) (BuildLoginRequest name pass randA) w = (None, w0)"
      "ReadPair (NewTransport conn) w0 = (Inr resp, w1)"
      "WriteCommand (NewTransport conn) packet w1 = (None, w2)"
    and r: "ParseLoginResponse resp = Inr randB" "Encode cmd = Some pt"
      "Decrypt (DeriveSessionKey name pass randA randB)
         (CommandNonce (s_gwMAC (c_session c)) (take 3 packet))
         (take 2 (drop 3 packet)) (drop 5 packet) = Inr pt"
    by blast
  have "writeRequest pair (BuildLoginRequest name pass randA) w = (None, w0)"
    "read_value pair w0 = (Inr resp, w1)" "writeCommand cmdio packet w1 = (None, w2)"
    using s io by (auto simp: transport_methods split: prod.splits sum.splits)
  with io r show ?thesis by blast
qed

theorem session_over_ble_witness:
  "let io = \<lparr>writeRequest = (\<lambda>d w. (None, w @ [d])), writeCommand = (\<lambda>d w. (None, w @ [d])),
             read_value = (\<lambda>w. (Inr (0x0D # replicate 16 7), w)), subscribe = (\<lambda>w. (None, w))\<rparr>;
       conn = \<lparr>charNotify = Some io, charCmd = Some io, charPair = Some io,
               conn_gwMAC = replicate 6 1, conn_closer = NilCloser, conn_closed = False\<rparr>;
       c = NewClient (replicate 6 1) []; w1 = [BuildLoginRequest ''mesh'' ''pw'' (replicate 8 5)]
   in \<exists>packet pt w2 randB. writeCommand io packet w1 = (None, w2) \<and> Encode (OnOff 0x1234 True) = Some pt \<and>
        Decrypt (DeriveSessionKey ''mesh'' ''pw'' (replicate 8 5) randB)
          (CommandNonce (s_gwMAC (c_session c)) (take 3 packet))
          (take 2 (drop 3 packet)) (drop 5 packet) = Inr pt"
proof -
  let ?io = "\<lparr>writeRequest = (\<lambda>d w. (None, w @ [d])), writeCommand = (\<lambda>d w. (None, w @ [d])),
     read_value = (\<lambda>w. (Inr (0x0D # replicate 16 7), w)), subscribe = (\<lambda>w. (None, w))\<rparr>
       :: byte list list charIO"
  let ?conn = "\<lparr>charNotify = Some ?io, charCmd = Some ?io, charPair = Some ?io,
     conn_gwMAC = replicate 6 1, conn_closer = NilCloser, conn_closed = False\<rparr>"
  let ?c = "NewClient (replicate 6 1) []"
  let ?w1 = "[BuildLoginRequest ''mesh'' ''pw'' (replicate 8 5)]"
  let ?c1 = "startHeartbeat (login_store
     (DeriveSessionKey ''mesh'' ''pw'' (replicate 8 5) (replicate 8 7)) [3, 4] ?c)"
  have complete: "complete ?conn" by (simp add: complete_def)
  have login: "Login (NewTransport ?conn) (Inr (replicate 8 5)) (Inr [3, 4]) ''mesh'' ''pw'' ?c [] =
      (None, ?c1, ?w1)"
    by (simp add: Login_def randomSalt_def ParseLoginResponse_def LoginResponseTag_def Let_def
        transport_methods wrap_error_def numeral_eq_Suc)
  obtain c2 w2 where "Send (NewTransport ?conn) (OnOff 0x1234 True) ?c1 ?w1 = Some (None, c2, w2)"
    by (auto simp: Send_def Encode_def OnOff_def nextSNO_def Let_def transport_methods wrap_error_def)
  from session_over_ble [OF complete login this] show ?thesis unfolding Let_def by fastforce
qed

text \<open>
  C26. The methods of the transport called by any number of goroutines: at most one write is in
  progress under the mutex, and it is held then; every call returns, after at most three steps of
  its own each, and the mutex is free in the end; and as long as nobody subscribes, the state and
  the results are those of the calls made one after the other. \<open>SubscribeNotify\<close> does not take the
  mutex: run without interruption it is the sequential method, but its kick can be in progress
  together with the write of a command.
\<close>

theorem transport_calls_serialised:
  assumes "complete conn" "tl_reachable conn s"
  shows "(i < length (tl_calls s) \<and> j < length (tl_calls s) \<and> tl_calls s ! i = InWrite c \<and> tl_calls s ! j = InWrite c' \<longrightarrow>
        i = j \<and> tl_locked s) \<and>
     (steps (tl_own conn) s as s' \<longrightarrow> length as \<le> 3 * length (tl_calls s) \<and>
        ((\<nexists>a s''. tl_own conn s' a s'') \<longrightarrow> tl_final s')) \<and>
     (\<not> tl_subscribed s \<longrightarrow> run_calls conn (map fst (tl_log s)) (tl_w0 s) = Some (map snd (tl_log s), tl_w s)) \<and>
     (i < length (tl_calls s) \<and> tl_calls s ! i = InSubscribe \<and> run_call conn CallSubscribe (tl_w s) = Some (r, w') \<longrightarrow>
        (\<exists>as. steps (tl_own conn) s as (s\<lparr>tl_w := w', tl_calls := (tl_calls s)[i := Back r]\<rparr>))) \<and>
     (charNotify conn = Some io \<and> subscribe io w = (None, w1) \<longrightarrow>
        (\<exists>t. tl_reachable conn t \<and> tl_calls t = [InKick, InWrite (CallCommand d)]))"
proof -
  have inv: "tl_inv conn s" by (rule tlock.reachable_inv [OF assms(2)])
  then have live: "tl_live conn s" using assms(1) by (simp add: tl_live_def)
  have "length as \<le> 3 * length (tl_calls s) \<and> ((\<nexists>a s''. tl_own conn s' a s'') \<longrightarrow> tl_final s')"
    if "steps (tl_own conn) s as s'"
    using tlock_end.steps_bounded [OF that] tl_rank_bound [of s] tlock_end.stuck_final [OF that live] by auto
  moreover have "\<not> tl_subscribed s \<longrightarrow>
      run_calls conn (map fst (tl_log s)) (tl_w0 s) = Some (map snd (tl_log s), tl_w s)"
    using inv by (auto simp: tl_inv_def tl_serial_def)
  ultimately show ?thesis
    using one_writer [OF inv, of i j c c'] subscribe_uninterrupted [of i s conn r w'] kick_overlaps [of conn io w w1 d]
    by simp
qed

theorem transport_calls_serialised_witness:
  "let io = \<lparr>writeRequest = (\<lambda>_ w. (None, w)), writeCommand = (\<lambda>p w. (None, w @ [p])),
         read_value = (\<lambda>w. (Inr [], w)), subscribe = (\<lambda>w. (None, w))\<rparr>;
       conn = \<lparr>charNotify = Some io, charCmd = Some io, charPair = Some io, conn_gwMAC = replicate 6 1,
         conn_closer = NilCloser, conn_closed = False\<rparr>
   in tl_reachable conn (tl_start []) \<and>
      (\<exists>t. tl_reachable conn t \<and> tl_calls t = [InKick, InWrite (CallCommand [7])])"
proof -
  let ?io = "\<lparr>writeRequest = (\<lambda>_ w. (None, w)), writeCommand = (\<lambda>p w. (None, w @ [p])),
    read_value = (\<lambda>w. (Inr [], w)), subscribe = (\<lambda>w. (None, w))\<rparr> :: byte list list charIO"
  let ?conn = "\<lparr>charNotify = Some ?io, charCmd = Some ?io, charPair = Some ?io, conn_gwMAC = replicate 6 1,
    conn_closer = NilCloser, conn_closed = False\<rparr>"
  have c: "complete ?conn" by (simp add: complete_def)
  have r: "tl_reachable ?conn (tl_start [])" by (rule reach_start) blast
  from r transport_calls_serialised [OF c r, where io = ?io and w = "[]" and d = "[7]"] show ?thesis
    unfolding Let_def by auto
qed

text \<open>
  C36. Identifiers survive printing and parsing: a MAC address printed by \<open>String\<close> is read back by
  \<open>ParseMAC\<close>, and found in the D-Bus path BlueZ makes of it by \<open>macFromPath\<close>; a UUID printed by
  \<open>String\<close> is read back by \<open>parseUUIDString\<close>. What the parsers return has six and sixteen bytes. The
  UUID parser looks at no dash, so the dashes may stand anywhere or be missing. The strings of
  \<open>protocol\<close> and the byte arrays of \<open>ble\<close> name the same UUIDs.
\<close>

theorem identifiers_roundtrip:
  "(length m = 6 \<longrightarrow>
      ParseMAC (MAC_String m) = Inr m \<and> ParseMAC (macFromPath (device_path adapter m)) = Inr m) \<and>
   (length u = 16 \<longrightarrow> parseUUIDString (UUID_String u) = Inr u) \<and>
   (ParseMAC s = Inr m' \<longrightarrow> length m' = 6) \<and> (parseUUIDString s = Inr u' \<longrightarrow> length u' = 16) \<and>
   parseUUIDString (a @ ''-'' @ b) = parseUUIDString (a @ b) \<and>
   map parseUUIDString [MeshServiceUUID_str, CharNotifyUUID_str, CharCmdUUID_str, CharOTAUUID_str, CharPairUUID_str,
       DISServiceUUID_str, DISModelNumberUUID_str] =
     map Inr [MeshServiceUUID, CharNotifyUUID, CharCmdUUID, CharOTAUUID, CharPairUUID, disServiceUUID, disModelNumberUUID]"
proof -
  have "parseUUIDString (a @ ''-'' @ b) = parseUUIDString (a @ b)" by (simp add: parseUUIDString_def)
  then show ?thesis
    using parseUUIDString_String
    by (simp add: ParseMAC_String macFromPath_device_path ParseMAC_length length_parseUUIDString
        uuid_strings_agree [symmetric] uuid_consts)
qed

theorem identifiers_roundtrip_witness:
  "ParseMAC (macFromPath (device_path ''/org/bluez/hci0'' [0, 0x21, 0xAB, 0xCD, 0xEF, 7])) =
     Inr [0, 0x21, 0xAB, 0xCD, 0xEF, 7]"
  by (rule conjunct2 [OF mp [OF conjunct1 [OF identifiers_roundtrip]]]) simp



text \<open>
  C29. Both scanners implement the same filter: on the same name and manufacturer data they emit
  the same advertisement, or neither emits anything; everything either scanner ever
  sends satisfies the filter. But a device that was known before the scan is forgotten by it: with a
  filter on the mesh name, a signal that does not carry the name again gives no result for it.
\<close>

theorem scanners_agree:
  "(ts_HasServiceUUID result ServiceUUID \<and> first_mfg (ts_ManufacturerData result) = Some data \<and>
      props ''ManufacturerData'' = Some (VData mfg) \<and> mfg ManufacturerIDSkytone = Some (VBytes data) \<and>
      as_string (props ''Name'') = ts_LocalName result \<longrightarrow>
      map_option r_Advertisement (maybeEmit path props flt) =
      map_option r_Advertisement (parseTinygoScanResult result flt)) \<and>
   (\<forall>r \<in> set (scan_linux flt objs startErr sigs). matches flt (r_Advertisement r)) \<and>
   (\<forall>r \<in> set (tinygo_results results flt). matches flt (r_Advertisement r)) \<and>
   (f_MeshName flt \<noteq> [] \<and> changed ''Name'' = None \<longrightarrow>
      scan_linux flt (Inr known) None [PropertiesChanged path bluezDeviceIface changed] = scan_seed flt known)"
proof (rule conjI [OF impI conjI [OF ballI conjI [OF ballI impI]]])
  assume "ts_HasServiceUUID result ServiceUUID \<and> first_mfg (ts_ManufacturerData result) = Some data \<and>
      props ''ManufacturerData'' = Some (VData mfg) \<and> mfg ManufacturerIDSkytone = Some (VBytes data) \<and>
      as_string (props ''Name'') = ts_LocalName result"
  then show "map_option r_Advertisement (maybeEmit path props flt) =
      map_option r_Advertisement (parseTinygoScanResult result flt)"
    by (simp add: maybeEmit_spec parseTinygo_spec)
next
  fix r assume "r \<in> set (scan_linux flt objs startErr sigs)"
  then show "matches flt (r_Advertisement r)" by (rule scan_linux_matches)
next
  fix r assume "r \<in> set (tinygo_results results flt)"
  then show "matches flt (r_Advertisement r)" by (rule tinygo_results_matches)
next
  assume "f_MeshName flt \<noteq> [] \<and> changed ''Name'' = None"
  then show "scan_linux flt (Inr known) None [PropertiesChanged path bluezDeviceIface changed] = scan_seed flt known"
    by (intro seeded_then_changed) simp_all
qed

theorem scanners_agree_witness:
  "let flt = \<lparr>f_MeshName = ''home'', f_NetworkID = 0, f_GatewayOnly = False\<rparr>
   in scan_linux flt (Inr []) None [PropertiesChanged ''/dev_1'' bluezDeviceIface
        (Map.empty(''RSSI'' \<mapsto> VInt16 5))] = scan_seed flt []"
  unfolding Let_def
  by (rule mp [OF conjunct2 [OF conjunct2 [OF conjunct2 [OF scanners_agree]]]]) simp

text \<open>
  C13. The scan on Linux, step by step beside its caller: its channel never holds more than 16
  results and is closed exactly when the goroutine has ended. Then the bus is in the state
  \<open>scan_goroutine\<close> leaves it in for the signals taken, and what the caller has received or can still
  receive is its list of results if the context was not done, and a subsequence of it otherwise.
  Conversely, every list of signals has a run in which the caller receives all of them.
\<close>

theorem scan_steps_refine:
  assumes "scan_reachable bus ap flt s"
  shows "length (sc_out s) \<le> 16 \<and> (sc_outClosed s \<longleftrightarrow> sc_pc s = ScanDone) \<and>
     (sc_pc s = ScanDone \<longrightarrow>
        sc_w s = snd (scan_goroutine bus ap flt (sc_taken s) (sc_w0 s)) \<and>
        subseq (sc_received s @ sc_out s) (fst (scan_goroutine bus ap flt (sc_taken s) (sc_w0 s))) \<and>
        (\<not> sc_ctxDone s \<longrightarrow>
           sc_received s @ sc_out s = fst (scan_goroutine bus ap flt (sc_taken s) (sc_w0 s)))) \<and>
     (\<exists>s'. scan_reachable bus ap flt s' \<and> sc_pc s' = ScanDone \<and>
        (sc_received s', sc_w s') = scan_goroutine bus ap flt sigs w)"
proof -
  have "length (sc_out s) \<le> 16" "sc_outClosed s \<longleftrightarrow> sc_pc s = ScanDone"
    using scan.reachable_inv [OF assms] by (simp_all add: scan_inv_def scan_channel_def)
  moreover have "\<exists>s'. scan_reachable bus ap flt s' \<and> sc_pc s' = ScanDone \<and>
      (sc_received s', sc_w s') = scan_goroutine bus ap flt sigs w"
    using scan_complete [of bus ap flt sigs w] by blast
  ultimately show ?thesis using scan_done [OF assms] by blast
qed

theorem scan_steps_refine_witness:
  "scan_reachable example_bus ''/hci0'' \<lparr>f_MeshName = [], f_NetworkID = 0, f_GatewayOnly = False\<rparr> (scan_begin ({#}, 0)) \<and>
   length (sc_out (scan_begin ({#} :: string multiset, 0 :: nat))) \<le> 16 \<and>
   (\<exists>s'. scan_reachable example_bus ''/hci0'' \<lparr>f_MeshName = [], f_NetworkID = 0, f_GatewayOnly = False\<rparr> s' \<and>
      sc_pc s' = ScanDone \<and> (sc_received s', sc_w s') = scan_goroutine example_bus ''/hci0''
        \<lparr>f_MeshName = [], f_NetworkID = 0, f_GatewayOnly = False\<rparr>
        [InterfacesAdded ''/d'' (Map.empty(bluezDeviceIface \<mapsto> example_device))] ({#}, 0))"
proof -
  let ?flt = "\<lparr>f_MeshName = [], f_NetworkID = 0, f_GatewayOnly = False\<rparr>"
  have r: "scan_reachable example_bus ''/hci0'' ?flt (scan_begin ({#}, 0))" by (rule reach_start) blast
  from r scan_steps_refine [OF r] show ?thesis by blast
qed



text \<open>
  C28. The scan on the other platforms: what the caller gets is a subsequence of what the reports
  parse to, and all of it while the context is not done and no report is being offered; the outer
  goroutine of a cancelled scan ends within three steps of its own, and without a cancellation the channel
  is closed only after the scan has returned. It never panics before its context is done; but
  cancelled while a report that matches is being offered, it can: the channel is closed under the
  callback.
\<close>

theorem tinygo_scan_panics:
  fixes s s' :: "'a tscan" and result :: "'a TinyScan"
  assumes "tscan_reachable flt s"
  shows "subseq (tc_received s @ tc_out s) (tinygo_results (tc_reports s) flt) \<and> length (tc_out s) \<le> 16 \<and>
     (\<not> tc_ctxDone s \<and> tc_callback s = None \<longrightarrow> tc_received s @ tc_out s = tinygo_results (tc_reports s) flt) \<and>
     (tc_closed s \<longrightarrow> tc_ctxDone s \<or> tc_returned s) \<and>
     (tc_ctxDone s \<and> \<not> tc_panicked s \<and> steps (tscan_own flt) s as s' \<longrightarrow> length as \<le> 3 \<and>
        ((\<nexists>a s''. tscan_own flt s' a s'') \<longrightarrow> tc_pc s' = TDone)) \<and>
     (tc_panicked s \<longrightarrow> tc_ctxDone s) \<and>
     (parseTinygoScanResult result flt = Some sr \<longrightarrow> (\<exists>t :: 'a tscan. tscan_reachable flt t \<and> tc_panicked t))"
proof -
  have inv: "tscan_emitted flt s" "tscan_closing s"
    using tscan.reachable_inv [OF assms] by (simp_all add: tscan_inv_def)
  have "subseq (tc_sent s) (tc_sent s @ emit_list (tc_callback s))" by (simp add: prefix_imp_subseq)
  then have "subseq (tc_sent s) (tinygo_results (tc_reports s) flt)"
    using inv(1) subseq_order.order_trans unfolding tscan_emitted_def by blast
  moreover have "length as \<le> 3 \<and> ((\<nexists>a s''. tscan_own flt s' a s'') \<longrightarrow> tc_pc s' = TDone)"
    if "tc_ctxDone s \<and> \<not> tc_panicked s" "steps (tscan_own flt) s as s'"
  proof -
    have "tscan_rank (tc_pc s) \<le> 3" by (cases "tc_pc s") simp_all
    with tscan_end.steps_bounded [OF that(2)] tscan_end.stuck_final [OF that(2,1)] show ?thesis by auto
  qed
  moreover have "tc_sent s = tc_received s @ tc_out s" "length (tc_out s) \<le> 16"
    "\<not> tc_ctxDone s \<and> tc_callback s = None \<longrightarrow> tc_sent s = tinygo_results (tc_reports s) flt"
    using inv(1) by (auto simp: tscan_emitted_def emit_list_def)
  moreover have "tc_closed s \<longrightarrow> tc_ctxDone s \<or> tc_returned s" "tc_panicked s \<longrightarrow> tc_ctxDone s"
    using inv(2) by (auto simp: tscan_closing_def)
  ultimately show ?thesis using tscan_panics [of result flt sr] by simp
qed

theorem tinygo_scan_panics_witness:
  "let flt = \<lparr>f_MeshName = [], f_NetworkID = 0, f_GatewayOnly = False\<rparr>
   in tscan_reachable flt (tscan_begin :: unit tscan) \<and> \<not> tc_panicked (tscan_begin :: unit tscan) \<and>
      (\<exists>s :: unit tscan. tscan_reachable flt s \<and> tc_panicked s)"
proof -
  let ?flt = "\<lparr>f_MeshName = [], f_NetworkID = 0, f_GatewayOnly = False\<rparr>"
  let ?result = "\<lparr>ts_HasServiceUUID = (\<lambda>_. True), ts_LocalName = [],
    ts_ManufacturerData = [(ManufacturerIDSkytone, replicate 15 7)], ts_Address = (), ts_RSSI = 0\<rparr>"
  have "ParseAdvertisement (replicate 15 7) \<noteq> None" by (simp add: ParseAdvertisement_None)
  then obtain sr where sr: "parseTinygoScanResult ?result ?flt = Some sr"
    by (auto simp: parseTinygoScanResult_def ParseManufacturerData_Skytone Let_def)
  have r: "tscan_reachable ?flt (tscan_begin :: unit tscan)" by (rule reach_start) simp
  have "\<exists>s :: unit tscan. tscan_reachable ?flt s \<and> tc_panicked s"
    using tinygo_scan_panics [OF r, where result = ?result and sr = sr] sr by blast
  with r show ?thesis by (simp add: tscan_begin_def)
qed





text \<open>
  C2. The path of a notification on Linux, from the radio to the caller: what the caller of
  \<open>Notifications\<close> has received or can still take from its channel is, in order, part of what the
  frames the HCI socket saw decrypt to. If those frames are the notifications of nodes under the
  session's key, it is a subsequence of them, and all of them once both goroutines have ended by
  themselves without the reader dropping anything.
\<close>

theorem notifications_end_to_end:
  assumes "delivery_reachable (h, p)"
  shows "subseq (p_received p @ p_out p)
      (decrypted (p_key p) (p_mac p) (notification_bodies (h_handle h) (h_frames h))) \<and>
   (list_all node_message ms \<and> h_frames h = map (node_frame (h_handle h) (p_key p) (p_mac p)) ms \<longrightarrow>
      subseq (p_received p @ p_out p) (map (snd \<circ> snd) ms) \<and>
      (h_dropped h = 0 \<and> p_pc p = PumpDone \<and> \<not> p_ctxDone p \<longrightarrow> p_received p @ p_out p = map (snd \<circ> snd) ms))"
proof -
  have inv: "delivery_inv (h, p)" by (rule delivery.reachable_inv [OF assms])
  from delivered_frames [OF inv] show ?thesis
    by (auto simp: decrypted_node_frames)
qed

theorem notifications_end_to_end_witness:
  "let n = \<lparr>Source = 9, NOpcode = 0xDB, NVendor = 0x6969, Payload = replicate 10 5\<rparr>
   in \<exists>h p. delivery_reachable (h, p) \<and> h_frames h \<noteq> [] \<and> p_pc p = PumpDone \<and> p_received p @ p_out p = [n]"
proof -
  let ?n = "\<lparr>Source = 9, NOpcode = 0xDB, NVendor = 0x6969, Payload = replicate 10 5\<rparr>"
  let ?m = "(replicate 6 1, [9, 8, 7], ?n) :: byte list \<times> byte list \<times> Notification"
  have m: "node_message ?m" by (simp add: node_message_def)
  from delivery_example [OF m, of 7 "replicate 16 3" "[0, 0x21, 1, 2, 3, 4]"] obtain h p where
    r: "delivery_reachable (h, p)" and h: "h_handle h = 7" "p_key p = replicate 16 3"
      "p_mac p = [0, 0x21, 1, 2, 3, 4]"
      "h_frames h = [node_frame 7 (replicate 16 3) [0, 0x21, 1, 2, 3, 4] ?m]"
      "h_dropped h = 0" "p_pc p = PumpDone" "\<not> p_ctxDone p" by blast
  have "list_all node_message [?m] \<and> h_frames h = map (node_frame (h_handle h) (p_key p) (p_mac p)) [?m]"
    using m h by simp
  from mp [OF conjunct2 [OF notifications_end_to_end [OF r]] this] h
  have "p_received p @ p_out p = [?n]" by simp
  moreover from h have "h_frames h \<noteq> []" by simp
  ultimately show ?thesis using r h(6) unfolding Let_def by blast
qed

text \<open>
  C15. Cancelling the context of \<open>Notifications\<close> on Linux stops everything behind it: from any state
  of the reader of the HCI socket and the pump (with a logger), the two goroutines together take
  at most 136 more steps, however they are interleaved; when neither can go on, both have
  returned and both channels are closed; and such an end is always reached, whether or not anyone
  takes the notifications.
\<close>

theorem notifications_stop:
  assumes "delivery_reachable (h, p)" "h_ctxDone h" "p_logger p \<noteq> None" "steps delivery_own (h, p) as (h', p')"
  shows "length as \<le> 136 \<and>
     ((\<nexists>a s. delivery_own (h', p') a s) \<longrightarrow>
        h_pc h' = HciDone \<and> h_outClosed h' \<and> p_pc p' = PumpDone \<and> p_outClosed p') \<and>
     (\<exists>bs s. steps delivery_own (h', p') bs s \<and> delivery_final s)"
proof -
  note inv = delivery.reachable_inv [OF assms(1)]
  have live: "delivery_live (h, p)"
    using inv assms(2,3) delivery_context.reachable_inv [OF assms(1)]
    by (simp add: delivery_live_def pump_live_def delivery_inv_def)
  note live' = delivery_end.steps_live [OF assms(4) live]
  have "length (p_raw p) \<le> 64" using inv by (auto simp: delivery_inv_def hci_inv_def)
  moreover have "hci_rank (h_pc h) \<le> 4" by (cases "h_pc h") simp_all
  moreover have "pc_rank (p_pc p) \<le> 4" by (cases "p_pc p") simp_all
  ultimately have "delivery_rank (h, p) \<le> 136" by (simp add: delivery_rank_def pump_rank_def)
  with delivery_end.steps_bounded [OF assms(4)] have "length as \<le> 136" by simp
  moreover from live' have "h_outClosed h' \<longleftrightarrow> h_pc h' = HciDone" "p_outClosed p' \<longleftrightarrow> p_pc p' = PumpDone"
    by (simp_all add: delivery_live_def delivery_inv_def hci_inv_def pump_inv_def pump_queue_def)
  ultimately show ?thesis
    using delivery_end.stuck_final [OF assms(4) live] delivery_end.reaches_final [OF live']
    by (auto simp: delivery_final_def)
qed

theorem notifications_stop_witness:
  "let h = (hci_start 7)\<lparr>h_ctxDone := True\<rparr>;
       p = (pump_start (replicate 16 1) (replicate 6 2) (Some 0))\<lparr>p_ctxDone := True\<rparr>
   in delivery_reachable (h, p) \<and> (\<exists>bs s. steps delivery_own (h, p) bs s \<and> delivery_final s)"
proof -
  let ?h = "hci_start 7" and ?p = "pump_start (replicate 16 1) (replicate 6 2) (Some 0)"
  have "delivery_reachable (?h, ?p)" by (rule reach_start) (auto simp: delivery_start_def)
  then have r: "delivery_reachable (?h\<lparr>h_ctxDone := True\<rparr>, ?p\<lparr>p_ctxDone := True\<rparr>)"
    by (rule reach_step) (rule delivery_context)
  from notifications_stop [OF r _ _ steps_Nil] r show ?thesis
    unfolding Let_def by (simp add: pump_start_def)
qed

section \<open>The programs\<close>







text \<open>
  C19. The programs give their link back, provided \<open>Connect\<close> and \<open>Disconnect\<close> do as documented and no
  \<open>Disconnect\<close> fails: a program that ends in some way, started with no device connected, leaves
  none connected if it returns or fails before it is connected, and leaves its node connected if
  it ends with any later error (\<open>log.Fatalf\<close> runs no deferred call). What listen prints at its end
  are the counts of the notifications it took, by opcode, and smoke-linux prints their number.
\<close>

theorem programs_give_back_links:
  fixes w :: 'w and bus :: "'w Bus"
  assumes laws: "link_laws bus sys links" and disc: "\<And>p v. fst (DeviceDisconnect bus p v) = None"
    and connected: "\<And>v r v'. SystemBus v = (r, v') \<Longrightarrow> links v' = links v \<and> (\<forall>b. r = Inr b \<longrightarrow> b = bus)"
    and none: "links w = {}"
  shows "(listen_main (linux_newAdapter SystemBus sys sigs evs) rndA rndSalt name pass now ls w = Some (r, w') \<longrightarrow>
        (links w' = {} \<longleftrightarrow> no_link_left r) \<and>
        (r = Ready counts \<longrightarrow> counts op = length (filter (\<lambda>n. NOpcode n = op) (listened ls)))) \<and>
     (smoke_linux_main (linux_newAdapter SystemBus sys sigs evs) rndA rndSalt name pass now ns w = Some (r2, w') \<longrightarrow>
        (links w' = {} \<longleftrightarrow> no_link_left r2) \<and> (r2 = Ready rx \<longrightarrow> rx = length ns)) \<and>
     (smoke_main (linux_newAdapter SystemBus sys sigs evs) rndA rndSalt name pass now ns w = Some (r3, w') \<longrightarrow>
        (links w' = {} \<longleftrightarrow> no_link_left r3))"
proof (intro conjI impI)
  have new: "links v' = links v \<and> (\<forall>a. r = Inr a \<longrightarrow> (\<exists>ap. a = linux_adapter bus sys ap sigs evs))"
    if "linux_newAdapter SystemBus sys sigs evs v = (r, v')" for v r v'
    by (rule linux_newAdapter_leaves [OF laws connected that])
  note run = run_program_links [OF laws disc _ _ new _ none]
  have labels: "''scan: %v'' \<in> before_connect" "''scan start: %v'' \<in> before_connect" by (simp_all add: before_connect_def)
  have bodies: "body_ok links (\<lambda>t. listen_body t now ls)" "body_ok links (\<lambda>t. smoke_linux_body t now ns)"
    by (simp_all add: listen_body_def smoke_linux_body_def observe_body_ok)
  { assume l: "listen_main (linux_newAdapter SystemBus sys sigs evs) rndA rndSalt name pass now ls w = Some (r, w')"
    show "links w' = {} \<longleftrightarrow> no_link_left r" by (rule run [OF bodies(1) labels(1) _ l [unfolded listen_main_def]])
    show "counts op = length (filter (\<lambda>n. NOpcode n = op) (listened ls))" if "r = Ready counts"
      using l that by (simp add: listen_main_Ready) }
  { assume s: "smoke_linux_main (linux_newAdapter SystemBus sys sigs evs) rndA rndSalt name pass now ns w = Some (r2, w')"
    show "links w' = {} \<longleftrightarrow> no_link_left r2" by (rule run [OF bodies(2) labels(2) _ s [unfolded smoke_linux_main_def]])
    show "rx = length ns" if "r2 = Ready rx" using s that by (simp add: smoke_linux_main_Ready) }
  assume m: "smoke_main (linux_newAdapter SystemBus sys sigs evs) rndA rndSalt name pass now ns w = Some (r3, w')"
  show "links w' = {} \<longleftrightarrow> no_link_left r3" by (rule run [OF smoke_body_ok labels(2) _ m [unfolded smoke_main_def]])
qed

theorem programs_give_back_links_witness:
  "\<exists>err w'. listen_main (linux_newAdapter (\<lambda>w. (Inr linked_bus, w)) linked_sys
       [InterfacesAdded ''/d'' (Map.empty(bluezDeviceIface \<mapsto> example_device))] [])
     (Inr (replicate 8 5)) (Inr [3, 4]) ''n'' ''p'' 0 [] {} = Some (Fatal ''login: %v'' err, w') \<and> w' \<noteq> {}"
proof -
  obtain err w' where r: "listen_main (linux_newAdapter (\<lambda>w. (Inr linked_bus, w)) linked_sys
       [InterfacesAdded ''/d'' (Map.empty(bluezDeviceIface \<mapsto> example_device))] [])
     (Inr (replicate 8 5)) (Inr [3, 4]) ''n'' ''p'' 0 [] {} = Some (Fatal ''login: %v'' err, w')"
    using linked_login_fails by blast
  have "w' = {} \<longleftrightarrow> no_link_left (Fatal ''login: %v'' err :: (byte \<Rightarrow> nat) outcome)"
    by (rule conjunct1 [OF mp [OF conjunct1 [OF programs_give_back_links [OF linked_bus_laws linked_disconnect]] r]]) auto
  with r show ?thesis by (auto simp: before_connect_def)
qed

end
